theory Spec2Isabelle
  imports Main "HOL-Library.DAList"
begin

section \<open>Byte strings\<close>

text \<open>
  Messages and frames are Go byte slices, modelled as \<open>string\<close> (a list of characters).
  \<open>bytes.HasPrefix\<close> and \<open>bytes.HasSuffix\<close> of the Go standard library compare the
  leading, respectively trailing, \<open>len(prefix)\<close> bytes after a length check.
\<close>

definition HasPrefix :: "string \<Rightarrow> string \<Rightarrow> bool" where
  "HasPrefix s p \<longleftrightarrow> length p \<le> length s \<and> take (length p) s = p"

definition HasSuffix :: "string \<Rightarrow> string \<Rightarrow> bool" where
  "HasSuffix s p \<longleftrightarrow> length p \<le> length s \<and> drop (length s - length p) s = p"

text \<open>The two literals of the read loop: the opening marker and the closing bytes.\<close>

definition marker :: string where
  \<open>marker = ''C{"''\<close>

definition closer :: string where
  \<open>closer = ''"}''\<close>

section \<open>Frame reassembly (devserver.go, the head of the read loop)\<close>

text \<open>
  The frames a connection will deliver are a list; \<open>websocket.Message.Receive\<close> takes the
  next one and fails once the list is exhausted (the peer has gone).

  \<open>collect msg buffer frames\<close> is the inner \<open>for\<close> loop: \<open>msg\<close> is the frame received
  last, \<open>buffer\<close> the bytes written to the buffer so far. The loop leaves when \<open>msg\<close>,
  the latest frame, ends with the closing bytes; otherwise it receives the next frame and
  appends it. A failed receive inside the loop returns from the handler (\<open>None\<close>).
\<close>

fun collect :: "string \<Rightarrow> string \<Rightarrow> string list \<Rightarrow> (string \<times> string list) option" where
  "collect msg buffer [] = (if HasSuffix msg closer then Some (buffer, []) else None)"
| "collect msg buffer (f # fs) =
     (if HasSuffix msg closer then Some (buffer, f # fs) else collect f (buffer @ f) fs)"

text \<open>
  \<open>reassemble frames\<close> covers the first receive of an iteration up to \<open>fullMsg\<close>: it
  returns the complete message and the frames not consumed, or \<open>None\<close> when a receive
  fails (both the \<open>break\<close> of the outer receive and the \<open>return\<close> of the inner one end
  the handler).
\<close>

definition reassemble :: "string list \<Rightarrow> (string \<times> string list) option" where
  "reassemble frames =
     (case frames of
        [] \<Rightarrow> None
      | msg # rest \<Rightarrow> if HasPrefix msg marker then collect msg msg rest else Some (msg, rest))"

section \<open>The relay: data model (devserver.go)\<close>

text \<open>
  A connection is a \<open>*websocket.Conn\<close>: the nil pointer or the address of a connection
  object. \<open>WebsocketInfo\<close> holds the \<open>sync.Map\<close> of the event names a connection has
  subscribed to (the handler only ever stores \<open>true\<close>). \<open>DevWebServer\<close> keeps the
  registry \<open>websocketClients\<close>, a Go map: an association list with distinct keys, whose
  order stands for the unspecified order of a \<open>range\<close> over the map. \<open>EventNotify\<close> is
  the decoded event; its \<open>Data\<close>, a slice of arbitrary JSON values, keeps each value as
  its text.
\<close>

datatype conn = NilConn | Conn nat

record WebsocketInfo =
  eventCache :: "string \<Rightarrow> bool option"

record DevWebServer =
  websocketClients :: "(conn, WebsocketInfo) alist"

record EventNotify =
  Name :: string
  Data :: "string list"

text \<open>
  What the relay does to the outside is recorded as a list of effects: a call of
  \<open>websocket.Message.Send\<close> on a connection, a line of the error or debug log, a call of
  the dispatcher, and the calls that reach the embedded desktop frontend (the host).
\<close>

datatype effect =
    Send conn string
  | LogError string
  | LogDebug string
  | Dispatch string
  | FrontendNotify string "string list"
  | FrontendWindowReload
  | FrontendWindowReloadApp
  | FrontendOther string
  | CloseConn conn

text \<open>
  The dispatcher is given the server itself as \<open>sender\<close>, so beside its result and error
  it may call back into the server through the \<open>frontend.Frontend\<close> interface. The
  server overrides \<open>WindowReload\<close>, \<open>WindowReloadApp\<close> and \<open>Notify\<close>; every other method
  is the embedded desktop frontend's.
\<close>

datatype frontend_call =
    CallWindowReload
  | CallWindowReloadApp
  | CallNotify string "string list"
  | CallOther string

record dispatch_result =
  calls :: "frontend_call list"
  result :: string
  err :: "string option"

text \<open>
  The collaborators outside this file are parameters. \<open>'w\<close> is the state of the outside
  world (the dispatcher's own state, the sockets): \<open>ProcessMessage\<close> is
  \<open>d.dispatcher.ProcessMessage\<close>, \<open>MessageSend\<close> is \<open>websocket.Message.Send\<close> (\<open>Some e\<close>
  is a failed write), \<open>Unmarshal\<close> and \<open>Marshal\<close> are \<open>encoding/json\<close> at the type
  \<open>EventNotify\<close> (\<open>Inl e\<close> is the error).
\<close>

record 'w env =
  ProcessMessage :: "string \<Rightarrow> 'w \<Rightarrow> dispatch_result \<times> 'w"
  MessageSend :: "conn \<Rightarrow> string \<Rightarrow> 'w \<Rightarrow> string option \<times> 'w"
  Unmarshal :: "string \<Rightarrow> string + EventNotify"
  Marshal :: "EventNotify \<Rightarrow> string + string"

section \<open>The relay: broadcast engine\<close>

text \<open>
  \<open>forEach\<close> runs an effectful body over a list, threading the world. The goroutine each
  delivery runs in is not modelled: the deliveries of one broadcast happen in the order of
  the registry list, which is arbitrary.
\<close>

fun forEach :: "('a \<Rightarrow> 'w \<Rightarrow> effect list \<times> 'w) \<Rightarrow> 'a list \<Rightarrow> 'w \<Rightarrow> effect list \<times> 'w" where
  "forEach body [] w = ([], w)"
| "forEach body (x # xs) w =
     (case body x w of (es, w1) \<Rightarrow>
        (case forEach body xs w1 of (es', w2) \<Rightarrow> (es @ es', w2)))"

text \<open>The body of the goroutine of \<open>broadcast\<close>, for one entry of the registry.\<close>

definition deliver ::
  "'w env \<Rightarrow> string \<Rightarrow> string \<Rightarrow> conn \<times> WebsocketInfo \<Rightarrow> 'w \<Rightarrow> effect list \<times> 'w" where
  "deliver env message name entry w =
     (case entry of (client, info) \<Rightarrow>
        if client = NilConn then ([LogError ''Lost connection to websocket server''], w)
        else if name \<noteq> [] \<and> eventCache info name = None then ([], w)
        else (case MessageSend env client message w of
                (None, w1) \<Rightarrow> ([Send client message], w1)
              | (Some e, w1) \<Rightarrow> ([Send client message, LogError e], w1)))"

definition broadcast ::
  "'w env \<Rightarrow> string \<Rightarrow> string \<Rightarrow> DevWebServer \<Rightarrow> 'w \<Rightarrow> effect list \<times> 'w" where
  "broadcast env message name d w =
     forEach (deliver env message name) (alist.impl_of (websocketClients d)) w"

text \<open>The body of the goroutine of \<open>broadcastExcludingSender\<close>.\<close>

definition deliverExcluding ::
  "'w env \<Rightarrow> string \<Rightarrow> conn \<Rightarrow> conn \<times> WebsocketInfo \<Rightarrow> 'w \<Rightarrow> effect list \<times> 'w" where
  "deliverExcluding env message sender entry w =
     (case entry of (client, info) \<Rightarrow>
        if client = sender then ([], w)
        else (case MessageSend env client message w of
                (None, w1) \<Rightarrow> ([Send client message], w1)
              | (Some e, w1) \<Rightarrow> ([Send client message, LogError e], w1)))"

definition broadcastExcludingSender ::
  "'w env \<Rightarrow> string \<Rightarrow> conn \<Rightarrow> DevWebServer \<Rightarrow> 'w \<Rightarrow> effect list \<times> 'w" where
  "broadcastExcludingSender env message sender d w =
     forEach (deliverExcluding env message sender) (alist.impl_of (websocketClients d)) w"

definition notify ::
  "'w env \<Rightarrow> string \<Rightarrow> string list \<Rightarrow> DevWebServer \<Rightarrow> 'w \<Rightarrow> effect list \<times> 'w" where
  "notify env name data d w =
     (case Marshal env \<lparr>Name = name, Data = data\<rparr> of
        Inl e \<Rightarrow> ([LogError e], w)
      | Inr payload \<Rightarrow> broadcast env (''n'' @ payload) name d w)"

text \<open>
  \<open>notifyExcludingSender\<close> slices \<open>eventMessage[2:]\<close>; its only caller passes a message
  longer than two bytes, where the slice is \<open>drop 2\<close>.
\<close>

definition notifyExcludingSender ::
  "'w env \<Rightarrow> string \<Rightarrow> conn \<Rightarrow> DevWebServer \<Rightarrow> 'w \<Rightarrow> effect list \<times> 'w" where
  "notifyExcludingSender env eventMessage sender d w =
     (case broadcastExcludingSender env (''n'' @ drop 2 eventMessage) sender d w of
        (es, w1) \<Rightarrow>
          (case Unmarshal env (drop 2 eventMessage) of
             Inl e \<Rightarrow> (es @ [LogError e], w1)
           | Inr notifyMessage \<Rightarrow>
               (es @ [FrontendNotify (Name notifyMessage) (Data notifyMessage)], w1)))"

definition WindowReload :: "'w env \<Rightarrow> DevWebServer \<Rightarrow> 'w \<Rightarrow> effect list \<times> 'w" where
  "WindowReload env d w =
     (case broadcast env ''reload'' [] d w of (es, w1) \<Rightarrow> (es @ [FrontendWindowReload], w1))"

definition WindowReloadApp :: "'w env \<Rightarrow> DevWebServer \<Rightarrow> 'w \<Rightarrow> effect list \<times> 'w" where
  "WindowReloadApp env d w =
     (case broadcast env ''reloadapp'' [] d w of
        (es, w1) \<Rightarrow> (es @ [FrontendWindowReloadApp], w1))"

text \<open>A call of the dispatcher on its \<open>sender\<close>, resolved as Go's method promotion does.\<close>

definition invoke ::
  "'w env \<Rightarrow> DevWebServer \<Rightarrow> frontend_call \<Rightarrow> 'w \<Rightarrow> effect list \<times> 'w" where
  "invoke env d call w =
     (case call of
        CallWindowReload \<Rightarrow> WindowReload env d w
      | CallWindowReloadApp \<Rightarrow> WindowReloadApp env d w
      | CallNotify name data \<Rightarrow> notify env name data d w
      | CallOther method \<Rightarrow> ([FrontendOther method], w))"

section \<open>The relay: the read loop of \<open>handleIPCWebSocket\<close>\<close>

text \<open>
  \<open>info.eventCache.Store\<close> and \<open>Delete\<close> change the \<open>WebsocketInfo\<close> object that the
  registry holds for the connection of the running handler.
\<close>

definition cacheStore :: "conn \<Rightarrow> string \<Rightarrow> DevWebServer \<Rightarrow> DevWebServer" where
  "cacheStore c name d =
     d\<lparr>websocketClients :=
         DAList.map_entry c (\<lambda>info. info\<lparr>eventCache := (eventCache info)(name \<mapsto> True)\<rparr>)
           (websocketClients d)\<rparr>"

definition cacheDelete :: "conn \<Rightarrow> string \<Rightarrow> DevWebServer \<Rightarrow> DevWebServer" where
  "cacheDelete c name d =
     d\<lparr>websocketClients :=
         DAList.map_entry c (\<lambda>info. info\<lparr>eventCache := (eventCache info)(name := None)\<rparr>)
           (websocketClients d)\<rparr>"

datatype flow = Continue | Break

text \<open>
  The tail of the loop body: the message goes to the dispatcher, an error is logged, and
  a non-empty result is sent to the connection \<open>c\<close> of the handler; a failed send leaves
  the loop.
\<close>

definition dispatchMessage ::
  "'w env \<Rightarrow> conn \<Rightarrow> string \<Rightarrow> DevWebServer \<Rightarrow> 'w \<Rightarrow> flow \<times> effect list \<times> 'w" where
  "dispatchMessage env c fullMsg d w =
     (case ProcessMessage env fullMsg w of (r, w1) \<Rightarrow>
        (case forEach (invoke env d) (calls r) w1 of (es, w2) \<Rightarrow>
           (let logged = (case err r of None \<Rightarrow> [] | Some e \<Rightarrow> [LogError e]) in
            if result r \<noteq> [] then
              (case MessageSend env c (result r) w2 of
                 (None, w3) \<Rightarrow>
                   (Continue, Dispatch fullMsg # es @ logged @ [Send c (result r)], w3)
               | (Some e, w3) \<Rightarrow>
                   (Break, Dispatch fullMsg # es @ logged @ [Send c (result r)], w3))
            else (Continue, Dispatch fullMsg # es @ logged, w2))))"

text \<open>
  The loop body from \<open>fullMsg\<close> on. \<open>drag\<close> is skipped; of the three prefixes of the
  \<open>switch\<close> only \<open>EB\<close> ends the iteration with \<open>continue\<close>, while \<open>EE\<close> and \<open>EX\<close> leave
  the \<open>switch\<close> and go on to the dispatcher with every other message.
\<close>

definition handleMessage ::
  "'w env \<Rightarrow> conn \<Rightarrow> string \<Rightarrow> DevWebServer \<Rightarrow> 'w \<Rightarrow>
     flow \<times> DevWebServer \<times> effect list \<times> 'w" where
  "handleMessage env c fullMsg d w =
     (if length fullMsg = 4 \<and> fullMsg = ''drag'' then (Continue, d, [], w)
      else if 2 < length fullMsg \<and> take 2 fullMsg = ''EE'' then
        (case notifyExcludingSender env fullMsg c d w of (es, w1) \<Rightarrow>
           (case dispatchMessage env c fullMsg d w1 of (fl, es', w2) \<Rightarrow>
              (fl, d, es @ es', w2)))
      else if 2 < length fullMsg \<and> take 2 fullMsg = ''EB'' then
        (Continue, cacheStore c (drop 2 fullMsg) d, [], w)
      else if 2 < length fullMsg \<and> take 2 fullMsg = ''EX'' then
        (case dispatchMessage env c fullMsg (cacheDelete c (drop 2 fullMsg) d) w of
           (fl, es, w1) \<Rightarrow> (fl, cacheDelete c (drop 2 fullMsg) d, es, w1))
      else
        (case dispatchMessage env c fullMsg d w of (fl, es, w1) \<Rightarrow> (fl, d, es, w1)))"

text \<open>
  The \<open>for\<close> loop over the frames of one connection. It ends when a receive fails or
  when the reply to a dispatched message cannot be sent. The registry it returns is the
  one at the moment the loop stops, before the deferred clean-up.
\<close>

datatype exit = ReceiveFailed | SendFailed

lemma collect_shorter:
  "collect msg buffer frames = Some (m, rest) \<Longrightarrow> length rest \<le> length frames"
proof (induction frames arbitrary: msg buffer)
  case Nil
  then show ?case by (simp split: if_splits)
next
  case (Cons f fs)
  show ?case
  proof (cases "HasSuffix msg closer")
    case True
    with Cons.prems show ?thesis by simp
  next
    case False
    with Cons.prems have "collect f (buffer @ f) fs = Some (m, rest)" by simp
    from Cons.IH [OF this] show ?thesis by simp
  qed
qed

lemma reassemble_shorter:
  "reassemble frames = Some (m, rest) \<Longrightarrow> length rest < length frames"
  by (auto simp: reassemble_def less_Suc_eq_le split: list.splits if_splits
      dest: collect_shorter)

function readLoop ::
  "'w env \<Rightarrow> conn \<Rightarrow> string list \<Rightarrow> DevWebServer \<Rightarrow> 'w \<Rightarrow>
     exit \<times> DevWebServer \<times> effect list \<times> 'w" where
  "readLoop env c frames d w =
     (case reassemble frames of
        None \<Rightarrow> (ReceiveFailed, d, [], w)
      | Some (fullMsg, rest) \<Rightarrow>
          (case handleMessage env c fullMsg d w of
             (Break, d1, es, w1) \<Rightarrow> (SendFailed, d1, es, w1)
           | (Continue, d1, es, w1) \<Rightarrow>
               (case readLoop env c rest d1 w1 of
                  (x, d2, es', w2) \<Rightarrow> (x, d2, es @ es', w2))))"
  by pat_completeness auto
termination
  by (relation "measure (\<lambda>(env, c, frames, d, w). length frames)")
     (auto dest: reassemble_shorter)

declare readLoop.simps [simp del]

text \<open>
  The handler of one connection: it registers the connection with an empty subscription
  state, runs the loop, and on the way out closes the connection and removes it from the
  registry (the two deferred calls, last one first). The pointer that the two debug
  lines print is left out of their text.
\<close>

definition handleIPCWebSocket ::
  "'w env \<Rightarrow> conn \<Rightarrow> string list \<Rightarrow> DevWebServer \<Rightarrow> 'w \<Rightarrow>
     DevWebServer \<times> effect list \<times> 'w" where
  "handleIPCWebSocket env c frames d w =
     (case readLoop env c frames
             (d\<lparr>websocketClients :=
                  DAList.update c \<lparr>eventCache = Map.empty\<rparr> (websocketClients d)\<rparr>) w of
        (x, d1, es, w1) \<Rightarrow>
          (d1\<lparr>websocketClients := DAList.delete c (websocketClients d1)\<rparr>,
           LogDebug ''Websocket client connected'' # es @
             [CloseConn c, LogDebug ''Websocket client disconnected''],
           w1))"

text \<open>
  The complete messages that the loop takes out of a list of frames, and the loop body
  run over a list of complete messages: together they are the read loop
  (\<open>readLoop_messages\<close> below).
\<close>

function messagesOf :: "string list \<Rightarrow> string list" where
  "messagesOf frames =
     (case reassemble frames of
        None \<Rightarrow> []
      | Some (fullMsg, rest) \<Rightarrow> fullMsg # messagesOf rest)"
  by pat_completeness auto
termination
  by (relation "measure length") (auto dest: reassemble_shorter)

declare messagesOf.simps [simp del]

fun handleMessages ::
  "'w env \<Rightarrow> conn \<Rightarrow> string list \<Rightarrow> DevWebServer \<Rightarrow> 'w \<Rightarrow>
     exit \<times> DevWebServer \<times> effect list \<times> 'w" where
  "handleMessages env c [] d w = (ReceiveFailed, d, [], w)"
| "handleMessages env c (m # ms) d w =
     (case handleMessage env c m d w of
        (Break, d1, es, w1) \<Rightarrow> (SendFailed, d1, es, w1)
      | (Continue, d1, es, w1) \<Rightarrow>
          (case handleMessages env c ms d1 w1 of
             (x, d2, es', w2) \<Rightarrow> (x, d2, es @ es', w2)))"

section \<open>The routes that \<open>Run\<close> registers (devserver.go)\<close>

text \<open>
  \<open>Run\<close> reads the frontend dev server URL and the asset directory from its context
  (the empty string when absent). \<open>wsHandler\<close> is a nil \<open>http.Handler\<close> unless the URL is
  set, in which case it is a reverse proxy to the parsed URL; the closure of the
  catch-all route captures it. \<open>urlParse\<close> stands for \<open>url.Parse\<close> (\<open>None\<close> is its
  error, which \<open>Run\<close> returns). The other ways \<open>Run\<close> can fail end it, or the process,
  before the catch-all route is registered and are left out.
\<close>

record runContext =
  frontenddevserverurl :: string
  assetdir :: string

datatype handler =
    HandleReload
  | HandleIPCWebSocket
  | AssetDir string
  | CatchAll "string option"

definition Run :: "(string \<Rightarrow> string option) \<Rightarrow> runContext \<Rightarrow> (string \<times> handler) list option" where
  "Run urlParse ctx =
     (let routes = [(''/wails/reload'', HandleReload), (''/wails/ipc'', HandleIPCWebSocket)] in
      if frontenddevserverurl ctx = [] then
        Some (routes @ [(''/wails/assetdir'', AssetDir (assetdir ctx)), (''/*'', CatchAll None)])
      else
        (case urlParse (frontenddevserverurl ctx) of
           None \<Rightarrow> None
         | Some externalURL \<Rightarrow> Some (routes @ [(''/*'', CatchAll (Some externalURL))])))"

text \<open>
  What a handler does with a GET request, as far as the routing is concerned. Calling
  \<open>ServeHTTP\<close> on the nil \<open>wsHandler\<close> is a nil dereference: the handler panics.
\<close>

datatype response =
    NoContent
  | IPCSession
  | Text string
  | Proxied string
  | AssetServed
  | NilHandlerPanic

definition serveHandler :: "handler \<Rightarrow> bool \<Rightarrow> response" where
  "serveHandler h isWebSocket =
     (case h of
        HandleReload \<Rightarrow> NoContent
      | HandleIPCWebSocket \<Rightarrow> IPCSession
      | AssetDir dir \<Rightarrow> Text dir
      | CatchAll wsHandler \<Rightarrow>
          if isWebSocket then
            (case wsHandler of None \<Rightarrow> NilHandlerPanic | Some externalURL \<Rightarrow> Proxied externalURL)
          else AssetServed)"


definition handleReloadApp ::
  "'w env \<Rightarrow> DevWebServer \<Rightarrow> 'w \<Rightarrow> response \<times> effect list \<times> 'w" where
  "handleReloadApp env d w =
     (case WindowReloadApp env d w of (es, w1) \<Rightarrow> (NoContent, es, w1))"

text \<open>
  The router is Echo's, a library. Of it only the documented priority is modelled: for a
  GET request a route whose path is the request's path is taken before the match-any
  route \<open>/*\<close>.
\<close>

definition findRoute :: "(string \<times> handler) list \<Rightarrow> string \<Rightarrow> handler option" where
  "findRoute routes path =
     (case map_of (filter (\<lambda>r. fst r \<noteq> ''/*'') routes) path of
        Some h \<Rightarrow> Some h
      | None \<Rightarrow> map_of routes ''/*'')"

definition serveGET ::
  "(string \<Rightarrow> string option) \<Rightarrow> runContext \<Rightarrow> string \<Rightarrow> bool \<Rightarrow> response option" where
  "serveGET urlParse ctx path isWebSocket =
     (case Run urlParse ctx of
        None \<Rightarrow> None
      | Some routes \<Rightarrow>
          (case findRoute routes path of
             None \<Rightarrow> None
           | Some h \<Rightarrow> Some (serveHandler h isWebSocket)))"

section \<open>The browser client (the websocket IPC script)\<close>

text \<open>
  The script keeps four module variables: \<open>wailsInvokeInternal\<close> (null, or the closure
  that \<open>setupIPCBridge\<close> installs), \<open>messageQueue\<close>, \<open>websocket\<close> (null, or a
  \<open>WebSocket\<close> object, of which only the \<open>readyState\<close> matters here) and the timer.
  \<open>transport\<close> lists the messages the socket has taken for transmission, oldest first;
  \<open>oncloseBound\<close> says whether \<open>onclose\<close> of the current socket has been set to
  \<open>handleDisconnect\<close>; \<open>overlay\<close> is the reconnecting indicator and \<open>rebinds\<close> counts
  the calls of \<open>window.runtime.EventsRebind\<close>. The interval timer only decides when
  \<open>_connect\<close> runs next and is left out, as are the console lines.

  A JavaScript function either returns or throws; in both cases the module variables
  keep what was assigned so far, so a call yields the exception, if any, and the state.
\<close>

datatype readyState = CONNECTING | OPEN | CLOSED

datatype jsError = TypeError | InvalidStateError

record client =
  wailsInvokeInternal :: bool
  messageQueue :: "string list"
  websocket :: "readyState option"
  oncloseBound :: bool
  transport :: "string list"
  overlay :: bool
  rebinds :: nat

text \<open>
  \<open>websocket.send(message)\<close>, the body of the closure: on \<open>null\<close> the property access
  throws a \<open>TypeError\<close>; the browser's \<open>send\<close> throws \<open>InvalidStateError\<close> while the
  socket is connecting, transmits when it is open and drops the data when it is closed.
\<close>

definition websocketSend :: "string \<Rightarrow> client \<Rightarrow> jsError option \<times> client" where
  "websocketSend message s =
     (case websocket s of
        None \<Rightarrow> (Some TypeError, s)
      | Some CONNECTING \<Rightarrow> (Some InvalidStateError, s)
      | Some OPEN \<Rightarrow> (None, s\<lparr>transport := transport s @ [message]\<rparr>)
      | Some CLOSED \<Rightarrow> (None, s))"

definition WailsInvoke :: "string \<Rightarrow> client \<Rightarrow> jsError option \<times> client" where
  "WailsInvoke message s =
     (if \<not> wailsInvokeInternal s then (None, s\<lparr>messageQueue := messageQueue s @ [message]\<rparr>)
      else websocketSend message s)"

text \<open>
  The \<open>for\<close> loop of \<open>setupIPCBridge\<close> over the queued messages. It runs after the
  closure is installed, when \<open>WailsInvoke\<close> no longer touches the queue, so the loop
  walks the queue as it stood; an exception ends it.
\<close>

fun sendQueued :: "string list \<Rightarrow> client \<Rightarrow> jsError option \<times> client" where
  "sendQueued [] s = (None, s)"
| "sendQueued (m # ms) s =
     (case WailsInvoke m s of
        (Some e, s1) \<Rightarrow> (Some e, s1)
      | (None, s1) \<Rightarrow> sendQueued ms s1)"

definition setupIPCBridge :: "client \<Rightarrow> jsError option \<times> client" where
  "setupIPCBridge s =
     (case sendQueued (messageQueue s) (s\<lparr>wailsInvokeInternal := True\<rparr>) of
        (Some e, s1) \<Rightarrow> (Some e, s1)
      | (None, s1) \<Rightarrow> (None, s1\<lparr>messageQueue := []\<rparr>))"

definition handleConnect :: "client \<Rightarrow> jsError option \<times> client" where
  "handleConnect s =
     (case setupIPCBridge (s\<lparr>overlay := False\<rparr>) of
        (Some e, s1) \<Rightarrow> (Some e, s1)
      | (None, s1) \<Rightarrow> (None, s1\<lparr>oncloseBound := True, rebinds := Suc (rebinds s1)\<rparr>))"

text \<open>
  \<open>connect_inner\<close> is the script's \<open>_connect\<close>: with no socket it creates one, which
  starts out connecting. \<open>connect\<close> calls it once and leaves the retries to the timer.
\<close>

definition connect_inner :: "client \<Rightarrow> client" where
  "connect_inner s =
     (if websocket s = None then s\<lparr>websocket := Some CONNECTING, oncloseBound := False\<rparr>
      else s)"

definition connect :: "client \<Rightarrow> client" where
  "connect s = connect_inner s"

definition handleDisconnect :: "client \<Rightarrow> client" where
  "handleDisconnect s = connect (s\<lparr>websocket := None, overlay := True\<rparr>)"

text \<open>
  The events of the socket: the browser sets the socket open and calls \<open>onopen\<close>, which
  is \<open>handleConnect\<close>; \<open>onclose\<close> is \<open>handleDisconnect\<close> once \<open>handleConnect\<close> has set
  it, and nothing before; \<open>onerror\<close> sets \<open>websocket\<close> to null.
\<close>

definition onopen :: "client \<Rightarrow> jsError option \<times> client" where
  "onopen s = handleConnect (s\<lparr>websocket := Some OPEN\<rparr>)"

definition onclose :: "client \<Rightarrow> client" where
  "onclose s = (if oncloseBound s then handleDisconnect s else s)"

definition onerror :: "client \<Rightarrow> client" where
  "onerror s = s\<lparr>websocket := None\<rparr>"

text \<open>The state once the script has been loaded: the variables as declared, then \<open>connect()\<close>.\<close>

definition loaded :: client where
  "loaded =
     connect \<lparr>wailsInvokeInternal = False, messageQueue = [], websocket = None,
              oncloseBound = False, transport = [], overlay = False, rebinds = 0\<rparr>"

section \<open>Vocabulary of the properties\<close>

text \<open>
  A connection is registered when the registry has an entry for it, and subscribed to a
  name when the \<open>eventCache\<close> of its entry holds the name (\<open>cache.Load(name)\<close> succeeds).
\<close>

definition registered :: "DevWebServer \<Rightarrow> conn \<Rightarrow> bool" where
  "registered d c \<longleftrightarrow> DAList.lookup (websocketClients d) c \<noteq> None"

definition subscribed :: "DevWebServer \<Rightarrow> conn \<Rightarrow> string \<Rightarrow> bool" where
  "subscribed d c name \<longleftrightarrow>
     (case DAList.lookup (websocketClients d) c of
        None \<Rightarrow> False
      | Some info \<Rightarrow> eventCache info name \<noteq> None)"

text \<open>
  The effects that are calls of the embedded desktop frontend, the sends, and the calls
  of the dispatcher.
\<close>

fun hostCall :: "effect \<Rightarrow> bool" where
  "hostCall (FrontendNotify name data) = True"
| "hostCall FrontendWindowReload = True"
| "hostCall FrontendWindowReloadApp = True"
| "hostCall (FrontendOther method) = True"
| "hostCall e = False"

fun isSend :: "effect \<Rightarrow> bool" where
  "isSend (Send c m) = True"
| "isSend e = False"

fun isDispatch :: "effect \<Rightarrow> bool" where
  "isDispatch (Dispatch m) = True"
| "isDispatch e = False"

text \<open>
  The third and second component of what the loop body and the loop return: the effects
  and the registry.
\<close>

definition effectsOf :: "'a \<times> 'b \<times> effect list \<times> 'c \<Rightarrow> effect list" where
  "effectsOf r = fst (snd (snd r))"

definition registryOf :: "'a \<times> DevWebServer \<times> 'b \<Rightarrow> DevWebServer" where
  "registryOf r = fst (snd r)"

section \<open>Concrete environments and registries\<close>

text \<open>
  \<open>quietEnv\<close>: every send succeeds, the dispatcher answers nothing and calls nothing,
  and the decoder accepts one payload. \<open>failingEnv\<close>: the dispatcher returns an error
  together with a result. \<open>answeringEnv\<close>: the dispatcher answers every message
  with a result. \<open>reloadingEnv\<close>: the dispatcher answers every message by
  calling \<open>WindowReload\<close> on its sender. \<open>threeClients\<close>: a registry of three
  connections, the second subscribed to \<open>foo\<close>.
\<close>

definition quietEnv :: "unit env" where
  \<open>quietEnv =
     \<lparr>ProcessMessage = (\<lambda>m w. (\<lparr>calls = [], result = [], err = None\<rparr>, w)),
      MessageSend = (\<lambda>c m w. (None, w)),
      Unmarshal = (\<lambda>s. if s = ''{"name":"ping","data":[]}''
                         then Inr \<lparr>Name = ''ping'', Data = []\<rparr>
                         else Inl ''invalid character''),
      Marshal = (\<lambda>n. Inr (''{"name":"'' @ Name n @ ''","data":[]}''))\<rparr>\<close>

definition failingEnv :: "unit env" where
  "failingEnv =
     quietEnv\<lparr>ProcessMessage :=
       (\<lambda>m w. (\<lparr>calls = [], result = ''partial'', err = Some ''boom''\<rparr>, w))\<rparr>"


definition answeringEnv :: "unit env" where
  "answeringEnv =
     quietEnv\<lparr>ProcessMessage :=
       (\<lambda>m w. (\<lparr>calls = [], result = ''c'' @ m, err = None\<rparr>, w))\<rparr>"

definition threeClients :: DevWebServer where
  "threeClients =
     \<lparr>websocketClients =
        DAList.update (Conn 1) \<lparr>eventCache = Map.empty\<rparr>
          (DAList.update (Conn 2) \<lparr>eventCache = [''foo'' \<mapsto> True]\<rparr>
             (DAList.update (Conn 3) \<lparr>eventCache = Map.empty\<rparr> DAList.empty))\<rparr>"

section \<open>Properties of frame reassembly\<close>

lemma HasSuffix_append: "HasSuffix y p \<Longrightarrow> HasSuffix (x @ y) p"
  by (auto simp: HasSuffix_def)

lemma collect_frames:
  "\<forall>k < length fs. \<not> HasSuffix ((msg # fs) ! k) closer \<Longrightarrow>
   HasSuffix (last (msg # fs)) closer \<Longrightarrow>
   collect msg buffer (fs @ rest) = Some (buffer @ concat fs, rest)"
proof (induction fs arbitrary: msg buffer)
  case Nil
  then show ?case by (cases rest) simp_all
next
  case (Cons f fs)
  from Cons.prems(1) have first: "\<not> HasSuffix msg closer" by auto
  from Cons.prems(1) have later: "\<forall>k < length fs. \<not> HasSuffix ((f # fs) ! k) closer"
    by fastforce
  from Cons.prems(2) have "HasSuffix (last (f # fs)) closer" by simp
  from Cons.IH [OF later this] first show ?case by simp
qed

lemma frame_of_accumulated:
  assumes "k < length fs" "HasSuffix (fs ! k) p"
  shows "HasSuffix (concat (take (Suc k) fs)) p"
proof -
  from assms(1) have "take (Suc k) fs = take k fs @ [fs ! k]"
    by (simp add: take_Suc_conv_app_nth)
  then show ?thesis using assms(2) by (simp add: HasSuffix_append)
qed

text \<open>
  Claim C1, as amended. A single frame that does not begin with the marker is passed on
  unchanged, and the frames after it are left alone. A message cut into the frames
  \<open>f # fs\<close> is put together again, whatever the number of frames, when the first frame
  begins with the marker, the last frame itself ends with the closing bytes, and no
  proper run of leading frames accumulates to bytes that already end with the closing
  bytes; the frames \<open>rest\<close> that follow are not consumed.
\<close>

theorem reassemble_roundtrip:
  "(\<not> HasPrefix m marker \<longrightarrow> reassemble (m # rest) = Some (m, rest)) \<and>
   (HasPrefix f marker \<and> HasSuffix (last (f # fs)) closer \<and>
    (\<forall>k < length fs. \<not> HasSuffix (concat (take (Suc k) (f # fs))) closer) \<longrightarrow>
      reassemble ((f # fs) @ rest) = Some (concat (f # fs), rest))"
proof (intro conjI impI)
  assume "\<not> HasPrefix m marker"
  then show "reassemble (m # rest) = Some (m, rest)" by (simp add: reassemble_def)
next
  assume h: "HasPrefix f marker \<and> HasSuffix (last (f # fs)) closer \<and>
    (\<forall>k < length fs. \<not> HasSuffix (concat (take (Suc k) (f # fs))) closer)"
  have "\<forall>k < length fs. \<not> HasSuffix ((f # fs) ! k) closer"
  proof (intro allI impI)
    fix k assume k: "k < length fs"
    then have "k < length (f # fs)" by simp
    from frame_of_accumulated [OF this] h k show "\<not> HasSuffix ((f # fs) ! k) closer"
      by blast
  qed
  from collect_frames [OF this, of f rest] h
  show "reassemble ((f # fs) @ rest) = Some (concat (f # fs), rest)"
    by (simp add: reassemble_def)
qed

text \<open>
  The theorem at a short frame and at a call message cut into three frames, with a
  further frame waiting behind each.
\<close>

theorem reassemble_roundtrip_witness:
  \<open>reassemble [''drag'', ''x''] = Some (''drag'', [''x'']) \<and>
   reassemble [''C{"a'', ''":"b'', ''"}'', ''EBfoo''] = Some (''C{"a":"b"}'', [''EBfoo''])\<close>
proof -
  have h1: "\<not> HasPrefix ''drag'' marker"
    by (simp add: HasPrefix_def marker_def)
  have h2: \<open>HasPrefix ''C{"a'' marker \<and>
      HasSuffix (last [''C{"a'', ''":"b'', ''"}'']) closer \<and>
      (\<forall>k < length [''":"b'', ''"}''].
         \<not> HasSuffix (concat (take (Suc k) [''C{"a'', ''":"b'', ''"}''])) closer)\<close>
    by (simp add: HasPrefix_def HasSuffix_def marker_def closer_def All_less_Suc)
  from reassemble_roundtrip [of "''drag''" "[''x'']"]
    reassemble_roundtrip [of _ "[''EBfoo'']" \<open>''C{"a''\<close> \<open>[''":"b'', ''"}'']\<close>] h1 h2
  show ?thesis by simp
qed

text \<open>
  Claim C1 as it was stated does not hold for every split. Three splits of messages that
  begin with the marker and end with the closing bytes: one before the final brace,
  where the last frame alone does not end with the closing bytes and the loop waits for
  a frame that never comes; one behind an inner object, where the first frame already
  ends with the closing bytes and is passed on as if complete; and one inside the
  marker, where the first frame is passed on by itself.
\<close>

theorem reassemble_every_split_counterexample:
  \<open>HasPrefix ''C{"a":"b"}'' marker \<and> HasSuffix ''C{"a":"b"}'' closer \<and>
   concat [''C{"a":"b"'', ''}''] = ''C{"a":"b"}'' \<and>
   reassemble [''C{"a":"b"'', ''}''] = None \<and>
   HasPrefix ''C{"a":{"b":"c"},"d":"e"}'' marker \<and>
   HasSuffix ''C{"a":{"b":"c"},"d":"e"}'' closer \<and>
   concat [''C{"a":{"b":"c"}'', '',"d":"e"}''] = ''C{"a":{"b":"c"},"d":"e"}'' \<and>
   reassemble [''C{"a":{"b":"c"}'', '',"d":"e"}''] =
     Some (''C{"a":{"b":"c"}'', ['',"d":"e"}'']) \<and>
   concat [''C{'', ''"a":"b"}''] = ''C{"a":"b"}'' \<and>
   reassemble [''C{'', ''"a":"b"}''] = Some (''C{'', [''"a":"b"}''])\<close>
  by (simp add: HasPrefix_def HasSuffix_def marker_def closer_def reassemble_def)

section \<open>Properties of the broadcast engine and of the read loop\<close>

text \<open>The read loop is the loop body run over the complete messages of the frames.\<close>

lemma readLoop_messages:
  "readLoop env c frames d w = handleMessages env c (messagesOf frames) d w"
proof (induction env c frames d w rule: readLoop.induct)
  case (1 env c frames d w)
  show ?case
  proof (cases "reassemble frames")
    case None
    then show ?thesis by (simp add: readLoop.simps [of env c frames] messagesOf.simps [of frames])
  next
    case (Some p)
    obtain fullMsg rest where p: "p = (fullMsg, rest)" by (cases p)
    obtain fl d1 es w1 where h: "handleMessage env c fullMsg d w = (fl, d1, es, w1)"
      by (cases "handleMessage env c fullMsg d w")
    show ?thesis
    proof (cases fl)
      case Continue
      with "1.IH" [OF Some p [symmetric] h [symmetric]] Some p h show ?thesis
        by (simp add: readLoop.simps [of env c frames] messagesOf.simps [of frames])
    next
      case Break
      with Some p h show ?thesis
        by (simp add: readLoop.simps [of env c frames] messagesOf.simps [of frames])
    qed
  qed
qed

lemma forEach_mem:
  "e \<in> set (fst (forEach body xs w)) \<Longrightarrow> \<exists>x \<in> set xs. \<exists>w'. e \<in> set (fst (body x w'))"
proof (induction xs arbitrary: w)
  case Nil
  then show ?case by simp
next
  case (Cons x xs)
  obtain es w1 where b: "body x w = (es, w1)" by (cases "body x w")
  obtain es' w2 where r: "forEach body xs w1 = (es', w2)" by (cases "forEach body xs w1")
  from Cons.prems b r have "e \<in> set es \<or> e \<in> set es'" by simp
  then show ?case
  proof
    assume "e \<in> set es"
    with b have "e \<in> set (fst (body x w))" by simp
    then show ?thesis by auto
  next
    assume "e \<in> set es'"
    with r have "e \<in> set (fst (forEach body xs w1))" by simp
    from Cons.IH [OF this] show ?thesis by auto
  qed
qed

lemma forEach_always:
  "x \<in> set xs \<Longrightarrow> (\<And>w'. e \<in> set (fst (body x w'))) \<Longrightarrow> e \<in> set (fst (forEach body xs w))"
proof (induction xs arbitrary: w)
  case Nil
  then show ?case by simp
next
  case (Cons y ys)
  obtain es w1 where b: "body y w = (es, w1)" by (cases "body y w")
  obtain es' w2 where r: "forEach body ys w1 = (es', w2)" by (cases "forEach body ys w1")
  show ?case
  proof (cases "x = y")
    case True
    from Cons.prems(2) [of w] True b have "e \<in> set es" by simp
    with b r show ?thesis by simp
  next
    case False
    with Cons.prems(1) have "x \<in> set ys" by simp
    from Cons.IH [OF this Cons.prems(2), of w1] r have "e \<in> set es'" by simp
    with b r show ?thesis by simp
  qed
qed

lemma deliverExcluding_Send:
  "Send c m \<in> set (fst (deliverExcluding env msg s (client, info) w)) \<longleftrightarrow>
     c = client \<and> client \<noteq> s \<and> m = msg"
  by (cases "MessageSend env client msg w")
     (auto simp: deliverExcluding_def split: option.splits)

lemma deliver_Send:
  "Send c m \<in> set (fst (deliver env msg name (client, info) w)) \<longleftrightarrow>
     c = client \<and> client \<noteq> NilConn \<and> m = msg \<and> (name = [] \<or> eventCache info name \<noteq> None)"
  by (cases "MessageSend env client msg w")
     (auto simp: deliver_def split: option.splits)

lemma entry_lookup:
  "(c, info) \<in> set (alist.impl_of al) \<longleftrightarrow> DAList.lookup al c = Some info"
  by (simp add: DAList.lookup.rep_eq)

lemma broadcastExcludingSender_Send:
  "Send c m \<in> set (fst (broadcastExcludingSender env msg s d w)) \<longleftrightarrow>
     registered d c \<and> c \<noteq> s \<and> m = msg"
proof
  assume "Send c m \<in> set (fst (broadcastExcludingSender env msg s d w))"
  from forEach_mem [OF this [unfolded broadcastExcludingSender_def]]
  obtain client info w' where "(client, info) \<in> set (alist.impl_of (websocketClients d))"
    and "Send c m \<in> set (fst (deliverExcluding env msg s (client, info) w'))" by auto
  then show "registered d c \<and> c \<noteq> s \<and> m = msg"
    by (auto simp: deliverExcluding_Send entry_lookup registered_def)
next
  assume h: "registered d c \<and> c \<noteq> s \<and> m = msg"
  then obtain info where "(c, info) \<in> set (alist.impl_of (websocketClients d))"
    by (auto simp: registered_def entry_lookup)
  from forEach_always [OF this, of "Send c m" "deliverExcluding env msg s" w] h
  show "Send c m \<in> set (fst (broadcastExcludingSender env msg s d w))"
    by (simp add: deliverExcluding_Send broadcastExcludingSender_def)
qed

lemma broadcast_Send:
  "Send c m \<in> set (fst (broadcast env msg name d w)) \<longleftrightarrow>
     c \<noteq> NilConn \<and> m = msg \<and> registered d c \<and> (name = [] \<or> subscribed d c name)"
proof
  assume "Send c m \<in> set (fst (broadcast env msg name d w))"
  from forEach_mem [OF this [unfolded broadcast_def]]
  obtain client info w' where "(client, info) \<in> set (alist.impl_of (websocketClients d))"
    and "Send c m \<in> set (fst (deliver env msg name (client, info) w'))" by auto
  then show "c \<noteq> NilConn \<and> m = msg \<and> registered d c \<and> (name = [] \<or> subscribed d c name)"
    by (auto simp: deliver_Send entry_lookup registered_def subscribed_def)
next
  assume h: "c \<noteq> NilConn \<and> m = msg \<and> registered d c \<and> (name = [] \<or> subscribed d c name)"
  then obtain info where i: "DAList.lookup (websocketClients d) c = Some info"
    by (auto simp: registered_def)
  then have "(c, info) \<in> set (alist.impl_of (websocketClients d))" by (simp add: entry_lookup)
  from forEach_always [OF this, of "Send c m" "deliver env msg name" w] h i
  show "Send c m \<in> set (fst (broadcast env msg name d w))"
    by (simp add: deliver_Send broadcast_def subscribed_def)
qed

lemma handleMessage_registry:
  "fst (snd (handleMessage env c m d w)) =
     (if m = ''drag'' then d
      else if 2 < length m \<and> take 2 m = ''EE'' then d
      else if 2 < length m \<and> take 2 m = ''EB'' then cacheStore c (drop 2 m) d
      else if 2 < length m \<and> take 2 m = ''EX'' then cacheDelete c (drop 2 m) d
      else d)"
  by (auto simp: handleMessage_def split: prod.splits)

lemma lookup_map_entry:
  "DAList.lookup (DAList.map_entry k f al) k' =
     (if k' = k then map_option f (DAList.lookup al k) else DAList.lookup al k')"
  by (cases "map_of (alist.impl_of al) k")
     (simp_all add: DAList.lookup.rep_eq DAList.map_entry.rep_eq map_of_map_entry)

lemma registered_cacheStore [simp]: "registered (cacheStore c n d) c' = registered d c'"
  by (simp add: registered_def cacheStore_def lookup_map_entry)

lemma registered_cacheDelete [simp]: "registered (cacheDelete c n d) c' = registered d c'"
  by (simp add: registered_def cacheDelete_def lookup_map_entry)

lemma subscribed_cacheStore:
  "subscribed (cacheStore c n d) c' name \<longleftrightarrow>
     (if c' = c \<and> name = n then registered d c else subscribed d c' name)"
  by (auto simp: subscribed_def registered_def cacheStore_def lookup_map_entry
      split: option.splits)

lemma subscribed_cacheDelete:
  "subscribed (cacheDelete c n d) c' name \<longleftrightarrow>
     (if c' = c \<and> name = n then False else subscribed d c' name)"
  by (auto simp: subscribed_def registered_def cacheDelete_def lookup_map_entry
      split: option.splits)

lemma handleMessage_registered:
  "registered (fst (snd (handleMessage env c m d w))) c' = registered d c'"
  by (simp add: handleMessage_registry)

lemma handleMessages_Nil_conv:
  "handleMessages env c (m # ms) d w = (ReceiveFailed, d', es, w') \<Longrightarrow>
   \<exists>d1 es1 w1 es2. handleMessage env c m d w = (Continue, d1, es1, w1) \<and>
      handleMessages env c ms d1 w1 = (ReceiveFailed, d', es2, w')"
  by (auto split: prod.splits flow.splits)

lemma handleMessages_append:
  "handleMessages env c (xs @ ys) d w = (ReceiveFailed, d', es, w') \<Longrightarrow>
   \<exists>d1 es1 w1 es2. handleMessages env c xs d w = (ReceiveFailed, d1, es1, w1) \<and>
      handleMessages env c ys d1 w1 = (ReceiveFailed, d', es2, w')"
proof (induction xs arbitrary: d w es)
  case Nil
  then show ?case by simp
next
  case (Cons x xs)
  from handleMessages_Nil_conv [OF Cons.prems [unfolded append_Cons]]
  obtain d1 es1 w1 es2 where s: "handleMessage env c x d w = (Continue, d1, es1, w1)"
    and r: "handleMessages env c (xs @ ys) d1 w1 = (ReceiveFailed, d', es2, w')" by blast
  from Cons.IH [OF r] obtain d2 es3 w2 es4 where
    "handleMessages env c xs d1 w1 = (ReceiveFailed, d2, es3, w2)"
    "handleMessages env c ys d2 w2 = (ReceiveFailed, d', es4, w')" by blast
  with s show ?case by simp
qed

lemma handleMessages_invariant:
  assumes "\<And>m d w. m \<in> set ms \<Longrightarrow> P d \<Longrightarrow> P (fst (snd (handleMessage env c m d w)))"
    and "P d"
  shows "P (fst (snd (handleMessages env c ms d w)))"
  using assms
proof (induction ms arbitrary: d w)
  case Nil
  then show ?case by simp
next
  case (Cons m ms)
  obtain fl d1 es1 w1 where s: "handleMessage env c m d w = (fl, d1, es1, w1)"
    by (cases "handleMessage env c m d w")
  from Cons.prems(1) [of m d w] Cons.prems(2) s have p1: "P d1" by simp
  show ?case
  proof (cases fl)
    case Break
    with s p1 show ?thesis by simp
  next
    case Continue
    have "P (fst (snd (handleMessages env c ms d1 w1)))"
      by (rule Cons.IH) (use Cons.prems(1) p1 in auto)
    with s Continue show ?thesis by (cases "handleMessages env c ms d1 w1") simp
  qed
qed

lemma HasPrefix_E: "\<not> HasPrefix (CHR ''E'' # s) marker"
  by (simp add: HasPrefix_def marker_def)

lemma subscribe_then_subscribed:
  assumes run: "handleMessages env c (pre @ [''EB'' @ name] @ post) d w = (ReceiveFailed, d', es, w')"
    and ne: "name \<noteq> []" and reg: "registered d c" and nox: "''EX'' @ name \<notin> set post"
  shows "registered d' c \<and> subscribed d' c name"
proof -
  from handleMessages_append [OF run] obtain d1 es1 w1 es2 where
    a: "handleMessages env c pre d w = (ReceiveFailed, d1, es1, w1)" and
    b: "handleMessages env c ([''EB'' @ name] @ post) d1 w1 = (ReceiveFailed, d', es2, w')"
    by blast
  have "registered (fst (snd (handleMessages env c pre d w))) c"
    by (rule handleMessages_invariant) (simp_all add: handleMessage_registered reg)
  with a have r1: "registered d1 c" by simp
  from b have b': "handleMessages env c ((''EB'' @ name) # post) d1 w1 = (ReceiveFailed, d', es2, w')"
    by (simp only: append_Cons append_Nil)
  from handleMessages_Nil_conv [OF b'] obtain d2 es3 w2 es4 where
    s: "handleMessage env c (''EB'' @ name) d1 w1 = (Continue, d2, es3, w2)" and
    p: "handleMessages env c post d2 w2 = (ReceiveFailed, d', es4, w')" by blast
  from handleMessage_registry [of env c "''EB'' @ name" d1 w1] s ne
  have "d2 = cacheStore c name d1" by simp
  with r1 have i: "registered d2 c \<and> subscribed d2 c name"
    by (simp add: subscribed_cacheStore)
  have "(\<lambda>x. registered x c \<and> subscribed x c name) (fst (snd (handleMessages env c post d2 w2)))"
  proof (rule handleMessages_invariant)
    fix m x v assume m: "m \<in> set post" and h: "registered x c \<and> subscribed x c name"
    from m nox have "m \<noteq> ''EX'' @ name" by auto
    then have "\<not> (2 < length m \<and> take 2 m = ''EX'' \<and> drop 2 m = name)"
      by (metis append_take_drop_id)
    with h show "registered (fst (snd (handleMessage env c m x v))) c \<and>
        subscribed (fst (snd (handleMessage env c m x v))) c name"
      by (auto simp: handleMessage_registry subscribed_cacheStore subscribed_cacheDelete)
  qed (rule i)
  with p show ?thesis by simp
qed

lemma forEach_filter_Nil:
  "(\<And>x w'. x \<in> set xs \<Longrightarrow> filter P (fst (body x w')) = []) \<Longrightarrow>
   filter P (fst (forEach body xs w)) = []"
proof (induction xs arbitrary: w)
  case Nil
  then show ?case by simp
next
  case (Cons x xs)
  obtain es w1 where b: "body x w = (es, w1)" by (cases "body x w")
  obtain es' w2 where r: "forEach body xs w1 = (es', w2)" by (cases "forEach body xs w1")
  from Cons.prems [of x w] b have 1: "filter P es = []" by simp
  have "filter P (fst (forEach body xs w1)) = []"
    by (rule Cons.IH) (simp add: Cons.prems)
  with r have 2: "filter P es' = []" by simp
  from b r 1 2 show ?case by simp
qed

lemma deliverExcluding_hostCall:
  "filter hostCall (fst (deliverExcluding env msg s entry w)) = []"
  by (cases entry; cases "MessageSend env (fst entry) msg w")
     (auto simp: deliverExcluding_def split: option.splits)


lemma broadcastExcludingSender_hostCall:
  "filter hostCall (fst (broadcastExcludingSender env msg s d w)) = []"
  unfolding broadcastExcludingSender_def
  by (rule forEach_filter_Nil) (rule deliverExcluding_hostCall)


lemma notifyExcludingSender_effects:
  "fst (notifyExcludingSender env ee a d w) =
     fst (broadcastExcludingSender env (''n'' @ drop 2 ee) a d w) @
       (case Unmarshal env (drop 2 ee) of
          Inl e \<Rightarrow> [LogError e]
        | Inr n \<Rightarrow> [FrontendNotify (Name n) (Data n)])"
  by (simp add: notifyExcludingSender_def split: prod.splits sum.splits)

lemma notifyExcludingSender_Send:
  "Send c m \<in> set (fst (notifyExcludingSender env ee a d w)) \<longleftrightarrow>
     registered d c \<and> c \<noteq> a \<and> m = ''n'' @ drop 2 ee"
  by (auto simp: notifyExcludingSender_effects broadcastExcludingSender_Send split: sum.splits)

lemma handleMessage_EE:
  "2 < length ee \<Longrightarrow> take 2 ee = ''EE'' \<Longrightarrow>
   handleMessage env a ee d w =
     (case notifyExcludingSender env ee a d w of (es, w1) \<Rightarrow>
        (case dispatchMessage env a ee d w1 of (fl, es', w2) \<Rightarrow> (fl, d, es @ es', w2)))"
  by (auto simp: handleMessage_def)

text \<open>
  Claim C2. \<open>broadcastExcludingSender\<close> calls \<open>Send\<close> with the message on a connection
  exactly when the connection is registered and is not the sender, whatever its
  subscription state. For a message \<open>ee\<close> longer than two bytes that begins with \<open>EE\<close>
  and comes from connection \<open>a\<close>, the loop body starts with \<open>notifyExcludingSender\<close>,
  which sends \<open>n\<close> followed by the bytes behind the prefix to every registered
  connection other than \<open>a\<close> and to \<open>a\<close> never, and which, when the payload decodes,
  calls the host exactly once, with the decoded name and data.
\<close>

theorem rebroadcast_excluding_sender:
  "(Send c m \<in> set (fst (broadcastExcludingSender env msg s d w)) \<longleftrightarrow>
      registered d c \<and> c \<noteq> s \<and> m = msg) \<and>
   (2 < length ee \<and> take 2 ee = ''EE'' \<longrightarrow>
      (\<exists>rest. effectsOf (handleMessage env a ee d w) =
                 fst (notifyExcludingSender env ee a d w) @ rest) \<and>
      (Send c m \<in> set (fst (notifyExcludingSender env ee a d w)) \<longleftrightarrow>
         registered d c \<and> c \<noteq> a \<and> m = ''n'' @ drop 2 ee) \<and>
      (Unmarshal env (drop 2 ee) = Inr n \<longrightarrow>
         filter hostCall (fst (notifyExcludingSender env ee a d w)) =
           [FrontendNotify (Name n) (Data n)]))"
proof (intro conjI impI)
  show "Send c m \<in> set (fst (broadcastExcludingSender env msg s d w)) \<longleftrightarrow>
      registered d c \<and> c \<noteq> s \<and> m = msg"
    by (rule broadcastExcludingSender_Send)
next
  assume "2 < length ee \<and> take 2 ee = ''EE''"
  then show "\<exists>rest. effectsOf (handleMessage env a ee d w) =
                 fst (notifyExcludingSender env ee a d w) @ rest"
    by (simp add: handleMessage_EE effectsOf_def split: prod.splits)
next
  show "Send c m \<in> set (fst (notifyExcludingSender env ee a d w)) \<longleftrightarrow>
         registered d c \<and> c \<noteq> a \<and> m = ''n'' @ drop 2 ee"
    by (rule notifyExcludingSender_Send)
next
  assume "Unmarshal env (drop 2 ee) = Inr n"
  then show "filter hostCall (fst (notifyExcludingSender env ee a d w)) =
           [FrontendNotify (Name n) (Data n)]"
    by (simp add: notifyExcludingSender_effects broadcastExcludingSender_hostCall)
qed

lemma threeClients_registered:
  "registered threeClients c \<longleftrightarrow> c = Conn 1 \<or> c = Conn 2 \<or> c = Conn 3"
  by (auto simp: registered_def threeClients_def DAList.lookup_update)

text \<open>
  The scenario of the specification: connection 1 of three sends the event \<open>ping\<close>.
\<close>

theorem rebroadcast_excluding_sender_witness:
  \<open>2 < length ''EE{"name":"ping","data":[]}'' \<and> take 2 ''EE{"name":"ping","data":[]}'' = ''EE'' \<and>
   Unmarshal quietEnv (drop 2 ''EE{"name":"ping","data":[]}'') = Inr \<lparr>Name = ''ping'', Data = []\<rparr> \<and>
   Send (Conn 2) ''n{"name":"ping","data":[]}'' \<in>
     set (fst (notifyExcludingSender quietEnv ''EE{"name":"ping","data":[]}'' (Conn 1) threeClients ())) \<and>
   Send (Conn 3) ''n{"name":"ping","data":[]}'' \<in>
     set (fst (notifyExcludingSender quietEnv ''EE{"name":"ping","data":[]}'' (Conn 1) threeClients ())) \<and>
   Send (Conn 1) ''n{"name":"ping","data":[]}'' \<notin>
     set (fst (notifyExcludingSender quietEnv ''EE{"name":"ping","data":[]}'' (Conn 1) threeClients ())) \<and>
   filter hostCall (fst (notifyExcludingSender quietEnv ''EE{"name":"ping","data":[]}'' (Conn 1) threeClients ())) =
     [FrontendNotify ''ping'' []]\<close>
proof -
  have h: \<open>2 < length ''EE{"name":"ping","data":[]}'' \<and> take 2 ''EE{"name":"ping","data":[]}'' = ''EE''\<close>
    by simp
  have u: \<open>Unmarshal quietEnv (drop 2 ''EE{"name":"ping","data":[]}'') = Inr \<lparr>Name = ''ping'', Data = []\<rparr>\<close>
    by (simp add: quietEnv_def)
  from rebroadcast_excluding_sender [of "Conn 2" _ quietEnv _ "Conn 1" threeClients "()" \<open>''EE{"name":"ping","data":[]}''\<close> "Conn 1" \<open>\<lparr>Name = ''ping'', Data = []\<rparr>\<close>]
    rebroadcast_excluding_sender [of "Conn 3" _ quietEnv _ "Conn 1" threeClients "()" \<open>''EE{"name":"ping","data":[]}''\<close> "Conn 1" \<open>\<lparr>Name = ''ping'', Data = []\<rparr>\<close>]
    rebroadcast_excluding_sender [of "Conn 1" _ quietEnv _ "Conn 1" threeClients "()" \<open>''EE{"name":"ping","data":[]}''\<close> "Conn 1" \<open>\<lparr>Name = ''ping'', Data = []\<rparr>\<close>]
    h u
  show ?thesis by (simp add: threeClients_registered)
qed

lemma unsubscribe_then_unsubscribed:
  assumes run: "handleMessages env c (pre @ [''EX'' @ name] @ post) d w = (ReceiveFailed, d', es, w')"
    and ne: "name \<noteq> []" and nob: "''EB'' @ name \<notin> set post"
  shows "\<not> subscribed d' c name"
proof -
  from handleMessages_append [OF run] obtain d1 es1 w1 es2 where
    b: "handleMessages env c ([''EX'' @ name] @ post) d1 w1 = (ReceiveFailed, d', es2, w')"
    by blast
  from b have b': "handleMessages env c ((''EX'' @ name) # post) d1 w1 = (ReceiveFailed, d', es2, w')"
    by (simp only: append_Cons append_Nil)
  from handleMessages_Nil_conv [OF b'] obtain d2 es3 w2 es4 where
    s: "handleMessage env c (''EX'' @ name) d1 w1 = (Continue, d2, es3, w2)" and
    p: "handleMessages env c post d2 w2 = (ReceiveFailed, d', es4, w')" by blast
  from handleMessage_registry [of env c "''EX'' @ name" d1 w1] s ne
  have "d2 = cacheDelete c name d1" by simp
  then have i: "\<not> subscribed d2 c name"
    by (simp add: subscribed_cacheDelete)
  have "(\<lambda>x. \<not> subscribed x c name) (fst (snd (handleMessages env c post d2 w2)))"
  proof (rule handleMessages_invariant)
    fix m x v assume m: "m \<in> set post" and h: "\<not> subscribed x c name"
    from m nob have "m \<noteq> ''EB'' @ name" by auto
    then have "\<not> (2 < length m \<and> take 2 m = ''EB'' \<and> drop 2 m = name)"
      by (metis append_take_drop_id)
    with h show "\<not> subscribed (fst (snd (handleMessage env c m x v))) c name"
      by (auto simp: handleMessage_registry subscribed_cacheStore subscribed_cacheDelete)
  qed (rule i)
  with p show ?thesis by simp
qed

text \<open>
  Claim C3. With the empty name \<open>broadcast\<close> sends to every registered connection. With
  a name it sends to a connection exactly when the subscription state of the connection
  holds the name. A connection whose loop has handled \<open>EB\<close> followed by the name, and
  after it no \<open>EX\<close> followed by the name, is sent the message; \<open>messagesOf frames\<close>
  are the complete messages the loop has taken from the frames received so far, and the
  loop is waiting for the next frame. What the loop of another connection handles does
  not change the subscriptions of this one.
\<close>

theorem broadcast_subscription_filter:
  "(c \<noteq> NilConn \<and> registered d c \<longrightarrow> Send c msg \<in> set (fst (broadcast env msg [] d w))) \<and>
   (name \<noteq> [] \<longrightarrow>
      (Send c msg \<in> set (fst (broadcast env msg name d w)) \<longleftrightarrow>
         c \<noteq> NilConn \<and> subscribed d c name)) \<and>
   (name \<noteq> [] \<and> c \<noteq> NilConn \<and> registered d0 c \<and>
    messagesOf frames = pre @ [''EB'' @ name] @ post \<and> ''EX'' @ name \<notin> set post \<and>
    readLoop env c frames d0 w0 = (ReceiveFailed, d1, es, w1) \<longrightarrow>
      Send c msg \<in> set (fst (broadcast env msg name d1 w))) \<and>
   (c' \<noteq> c \<longrightarrow>
      subscribed (registryOf (handleMessage env c' m d w)) c name = subscribed d c name)"
proof (intro conjI impI)
  assume "c' \<noteq> c"
  then show "subscribed (registryOf (handleMessage env c' m d w)) c name = subscribed d c name"
    by (simp add: registryOf_def handleMessage_registry subscribed_cacheStore
        subscribed_cacheDelete)
next
  assume "c \<noteq> NilConn \<and> registered d c"
  then show "Send c msg \<in> set (fst (broadcast env msg [] d w))"
    by (simp add: broadcast_Send)
next
  assume "name \<noteq> []"
  then show "Send c msg \<in> set (fst (broadcast env msg name d w)) \<longleftrightarrow>
         c \<noteq> NilConn \<and> subscribed d c name"
    by (auto simp: broadcast_Send subscribed_def registered_def split: option.splits)
next
  assume h: "name \<noteq> [] \<and> c \<noteq> NilConn \<and> registered d0 c \<and>
    messagesOf frames = pre @ [''EB'' @ name] @ post \<and> ''EX'' @ name \<notin> set post \<and>
    readLoop env c frames d0 w0 = (ReceiveFailed, d1, es, w1)"
  then have rl: "readLoop env c frames d0 w0 = (ReceiveFailed, d1, es, w1)"
    and eq: "messagesOf frames = pre @ [''EB'' @ name] @ post" by blast+
  from rl have "handleMessages env c (pre @ [''EB'' @ name] @ post) d0 w0 = (ReceiveFailed, d1, es, w1)"
    unfolding readLoop_messages eq .
  from subscribe_then_subscribed [OF this] h
  show "Send c msg \<in> set (fst (broadcast env msg name d1 w))"
    by (simp add: broadcast_Send)
qed

lemma quiet_send: "MessageSend quietEnv c m w = (None, w)"
  by (simp add: quietEnv_def)

lemma quiet_dispatch:
  "dispatchMessage quietEnv c m d w = (Continue, [Dispatch m], w)"
  by (simp add: dispatchMessage_def quietEnv_def)

text \<open>
  Connection 1 subscribes to \<open>foo\<close> and then sends a log message; connection 2 is
  subscribed from the start and connection 3 is not.
\<close>

theorem broadcast_subscription_filter_witness:
  "Conn 1 \<noteq> NilConn \<and> registered threeClients (Conn 1) \<and> ''foo'' \<noteq> [] \<and>
   messagesOf [''EBfoo'', ''Lhello''] = [] @ [''EB'' @ ''foo''] @ [''Lhello''] \<and>
   ''EX'' @ ''foo'' \<notin> set [''Lhello''] \<and>
   readLoop quietEnv (Conn 1) [''EBfoo'', ''Lhello''] threeClients () =
     (ReceiveFailed, cacheStore (Conn 1) ''foo'' threeClients, [Dispatch ''Lhello''], ()) \<and>
   Send (Conn 1) ''x'' \<in> set (fst (broadcast quietEnv ''x'' [] threeClients ())) \<and>
   Send (Conn 2) ''x'' \<in> set (fst (broadcast quietEnv ''x'' ''foo'' threeClients ())) \<and>
   Send (Conn 3) ''x'' \<notin> set (fst (broadcast quietEnv ''x'' ''foo'' threeClients ())) \<and>
   Send (Conn 1) ''x'' \<in>
     set (fst (broadcast quietEnv ''x'' ''foo'' (cacheStore (Conn 1) ''foo'' threeClients) ())) \<and>
   Conn 1 \<noteq> Conn 2 \<and>
   subscribed (registryOf (handleMessage quietEnv (Conn 1) ''EXfoo'' threeClients ())) (Conn 2)
     ''foo''"
proof -
  have m: "messagesOf [''EBfoo'', ''Lhello''] = [] @ [''EB'' @ ''foo''] @ [''Lhello'']"
    by (simp add: messagesOf.simps [of "_ # _"] messagesOf.simps [of "[]"] reassemble_def
        HasPrefix_def marker_def)
  have r: "readLoop quietEnv (Conn 1) [''EBfoo'', ''Lhello''] threeClients () =
     (ReceiveFailed, cacheStore (Conn 1) ''foo'' threeClients, [Dispatch ''Lhello''], ())"
    by (simp add: readLoop.simps [of _ _ "_ # _"] readLoop.simps [of _ _ "[]"] reassemble_def
        HasPrefix_def marker_def handleMessage_def quiet_dispatch)
  have s: "subscribed threeClients (Conn 2) ''foo'' \<and> \<not> subscribed threeClients (Conn 3) ''foo''"
    by (simp add: subscribed_def threeClients_def DAList.lookup_update)
  from broadcast_subscription_filter [of "Conn 1" threeClients "''x''" quietEnv "()" "''foo''"
      threeClients "[''EBfoo'', ''Lhello'']" "[]" "[''Lhello'']" "()"
      "cacheStore (Conn 1) ''foo'' threeClients" "[Dispatch ''Lhello'']" "()"]
    broadcast_subscription_filter [of "Conn 2" threeClients "''x''" quietEnv "()" "''foo''"
      _ _ _ _ _ _ _ _ "Conn 1" "''EXfoo''"]
    broadcast_subscription_filter [of "Conn 3" threeClients "''x''" quietEnv "()" "''foo''"]
    m r s
  show ?thesis by (simp add: threeClients_registered)
qed

lemma map_entry_twice:
  "AList.map_entry k f (AList.map_entry k g xs) = AList.map_entry k (f \<circ> g) xs"
  by (induction xs) auto

lemma cacheDelete_idem: "cacheDelete c name (cacheDelete c name d) = cacheDelete c name d"
proof -
  have "(\<lambda>info. info\<lparr>eventCache := (eventCache info)(name := None)\<rparr>) \<circ>
        (\<lambda>info. info\<lparr>eventCache := (eventCache info)(name := None)\<rparr>) =
        (\<lambda>info::WebsocketInfo. info\<lparr>eventCache := (eventCache info)(name := None)\<rparr>)"
    by (rule ext) simp
  then show ?thesis
    by (simp add: cacheDelete_def DAList.alist_eq_iff DAList.map_entry.rep_eq map_entry_twice)
qed

lemma messagesOf_E:
  "messagesOf (replicate k (CHR ''E'' # s)) = replicate k (CHR ''E'' # s)"
  by (induction k) (simp_all add: messagesOf.simps [of "_ # _"] messagesOf.simps [of "[]"]
      reassemble_def HasPrefix_E)

lemma handleMessages_repeat:
  assumes step: "\<And>d w. fst (snd (handleMessage env c x d w)) = f d"
    and idem: "\<And>d. f (f d) = f d"
  shows "fst (snd (handleMessages env c (replicate (Suc k) x) d w)) = f d"
proof (induction k arbitrary: d w)
  case 0
  obtain fl d1 es1 w1 where s: "handleMessage env c x d w = (fl, d1, es1, w1)"
    by (cases "handleMessage env c x d w")
  from step [of d w] s have "d1 = f d" by simp
  with s show ?case by (cases fl) simp_all
next
  case (Suc k)
  obtain fl d1 es1 w1 where s: "handleMessage env c x d w = (fl, d1, es1, w1)"
    by (cases "handleMessage env c x d w")
  from step [of d w] s have d1: "d1 = f d" by simp
  show ?case
  proof (cases fl)
    case Break
    with s d1 show ?thesis by simp
  next
    case Continue
    obtain x2 d2 es2 w2 where
      r: "handleMessages env c (replicate (Suc k) x) d1 w1 = (x2, d2, es2, w2)"
      by (cases "handleMessages env c (replicate (Suc k) x) d1 w1")
    from Suc.IH [of d1 w1] r d1 have "d2 = f d" by (simp add: idem)
    moreover have "handleMessages env c (replicate (Suc (Suc k)) x) d w =
        (x2, d2, es1 @ es2, w2)"
      using s Continue r by simp
    ultimately show ?thesis by simp
  qed
qed

lemma handleMessages_unsubscribe:
  assumes "name \<noteq> []"
  shows "fst (snd (handleMessages env c (replicate (Suc k) (''EX'' @ name)) d w)) =
    cacheDelete c name d"
proof (rule handleMessages_repeat)
  fix d w
  from assms show "fst (snd (handleMessage env c (''EX'' @ name) d w)) = cacheDelete c name d"
    by (simp add: handleMessage_registry)
next
  fix d show "cacheDelete c name (cacheDelete c name d) = cacheDelete c name d"
    by (rule cacheDelete_idem)
qed

text \<open>
  Claim C9. Once the loop of a connection has handled \<open>EX\<close> followed by a name (here
  after \<open>EB\<close> followed by the same name) and no later \<open>EB\<close> for it, a broadcast that
  requires the name does not send to the connection. Unsubscribing any number of times
  in a row leaves the registry as unsubscribing once does, namely with the name deleted
  from the subscription state of the connection, and deleting twice is deleting once.
\<close>

theorem unsubscribe_idempotent:
  "name \<noteq> [] \<longrightarrow>
     (messagesOf frames = pre @ [''EB'' @ name] @ mid @ [''EX'' @ name] @ post \<and>
      ''EB'' @ name \<notin> set post \<and>
      readLoop env c frames d0 w0 = (ReceiveFailed, d1, es, w1) \<longrightarrow>
        Send c msg \<notin> set (fst (broadcast env msg name d1 w))) \<and>
     registryOf (readLoop env c (replicate (Suc k) (''EX'' @ name)) d w) =
       registryOf (readLoop env c [''EX'' @ name] d w) \<and>
     registryOf (readLoop env c [''EX'' @ name] d w) = cacheDelete c name d \<and>
     cacheDelete c name (cacheDelete c name d) = cacheDelete c name d"
proof (intro impI conjI)
  assume ne: "name \<noteq> []"
  assume h: "messagesOf frames = pre @ [''EB'' @ name] @ mid @ [''EX'' @ name] @ post \<and>
      ''EB'' @ name \<notin> set post \<and>
      readLoop env c frames d0 w0 = (ReceiveFailed, d1, es, w1)"
  then have rl: "readLoop env c frames d0 w0 = (ReceiveFailed, d1, es, w1)"
    and eq: "messagesOf frames = (pre @ [''EB'' @ name] @ mid) @ [''EX'' @ name] @ post"
    by simp_all
  from rl have "handleMessages env c ((pre @ [''EB'' @ name] @ mid) @ [''EX'' @ name] @ post) d0 w0 =
      (ReceiveFailed, d1, es, w1)"
    unfolding readLoop_messages eq .
  from unsubscribe_then_unsubscribed [OF this ne] h
  have "\<not> subscribed d1 c name" by simp
  with ne show "Send c msg \<notin> set (fst (broadcast env msg name d1 w))"
    by (simp add: broadcast_Send)
next
  assume ne: "name \<noteq> []"
  have one: "[''EX'' @ name] = replicate (Suc 0) (''EX'' @ name)" by simp
  have k: "registryOf (readLoop env c (replicate (Suc k) (''EX'' @ name)) d w) = cacheDelete c name d" for k
    using handleMessages_unsubscribe [OF ne, of env c k d w] messagesOf_E [of "Suc k" "CHR ''X'' # name"]
    by (simp add: readLoop_messages registryOf_def del: replicate_Suc replicate.simps handleMessages.simps)
  from k [of k] k [of 0]
  show "registryOf (readLoop env c (replicate (Suc k) (''EX'' @ name)) d w) =
       registryOf (readLoop env c [''EX'' @ name] d w)" by simp
  from k [of 0] show "registryOf (readLoop env c [''EX'' @ name] d w) = cacheDelete c name d"
    by simp
next
  show "cacheDelete c name (cacheDelete c name d) = cacheDelete c name d"
    by (rule cacheDelete_idem)
qed

text \<open>Connection 1 subscribes to \<open>foo\<close> and unsubscribes again.\<close>

theorem unsubscribe_idempotent_witness:
  "''foo'' \<noteq> [] \<and>
   messagesOf [''EBfoo'', ''EXfoo''] = [] @ [''EB'' @ ''foo''] @ [] @ [''EX'' @ ''foo''] @ [] \<and>
   ''EB'' @ ''foo'' \<notin> set [] \<and>
   readLoop quietEnv (Conn 1) [''EBfoo'', ''EXfoo''] threeClients () =
     (ReceiveFailed, cacheDelete (Conn 1) ''foo'' (cacheStore (Conn 1) ''foo'' threeClients),
      [Dispatch ''EXfoo''], ()) \<and>
   Send (Conn 1) ''x'' \<notin>
     set (fst (broadcast quietEnv ''x'' ''foo''
       (cacheDelete (Conn 1) ''foo'' (cacheStore (Conn 1) ''foo'' threeClients)) ())) \<and>
   registryOf (readLoop quietEnv (Conn 1) (replicate (Suc 2) (''EX'' @ ''foo'')) threeClients ()) =
     registryOf (readLoop quietEnv (Conn 1) [''EX'' @ ''foo''] threeClients ())"
proof -
  have m: "messagesOf [''EBfoo'', ''EXfoo''] =
      [] @ [''EB'' @ ''foo''] @ [] @ [''EX'' @ ''foo''] @ []"
    by (simp add: messagesOf.simps [of "_ # _"] messagesOf.simps [of "[]"] reassemble_def
        HasPrefix_def marker_def)
  have r: "readLoop quietEnv (Conn 1) [''EBfoo'', ''EXfoo''] threeClients () =
     (ReceiveFailed, cacheDelete (Conn 1) ''foo'' (cacheStore (Conn 1) ''foo'' threeClients),
      [Dispatch ''EXfoo''], ())"
    by (simp add: readLoop.simps [of _ _ "_ # _"] readLoop.simps [of _ _ "[]"] reassemble_def
        HasPrefix_def marker_def handleMessage_def quiet_dispatch)
  from unsubscribe_idempotent [where name = "''foo''" and frames = "[''EBfoo'', ''EXfoo'']"
      and pre = "[]" and mid = "[]" and post = "[]" and env = quietEnv and c = "Conn 1"
      and ?d0.0 = threeClients and ?w0.0 = "()"
      and ?d1.0 = "cacheDelete (Conn 1) ''foo'' (cacheStore (Conn 1) ''foo'' threeClients)"
      and es = "[Dispatch ''EXfoo'']" and ?w1.0 = "()" and msg = "''x''" and w = "()"
      and k = 2 and d = threeClients] m r
  show ?thesis by simp
qed

lemma deliver_isDispatch: "filter isDispatch (fst (deliver env msg name entry w)) = []"
  by (cases entry; cases "MessageSend env (fst entry) msg w")
     (auto simp: deliver_def split: option.splits)

lemma deliverExcluding_isDispatch:
  "filter isDispatch (fst (deliverExcluding env msg s entry w)) = []"
  by (cases entry; cases "MessageSend env (fst entry) msg w")
     (auto simp: deliverExcluding_def split: option.splits)

lemma broadcast_isDispatch: "filter isDispatch (fst (broadcast env msg name d w)) = []"
  unfolding broadcast_def by (rule forEach_filter_Nil) (rule deliver_isDispatch)

lemma broadcastExcludingSender_isDispatch:
  "filter isDispatch (fst (broadcastExcludingSender env msg s d w)) = []"
  unfolding broadcastExcludingSender_def
  by (rule forEach_filter_Nil) (rule deliverExcluding_isDispatch)

lemma notifyExcludingSender_isDispatch:
  "filter isDispatch (fst (notifyExcludingSender env ee a d w)) = []"
  by (simp add: notifyExcludingSender_effects broadcastExcludingSender_isDispatch
      split: sum.splits)

lemma WindowReload_effects:
  "fst (WindowReload env d w) = fst (broadcast env ''reload'' [] d w) @ [FrontendWindowReload]"
  by (simp add: WindowReload_def split: prod.splits)

lemma WindowReloadApp_effects:
  "fst (WindowReloadApp env d w) =
     fst (broadcast env ''reloadapp'' [] d w) @ [FrontendWindowReloadApp]"
  by (simp add: WindowReloadApp_def split: prod.splits)

lemma invoke_isDispatch: "filter isDispatch (fst (invoke env d call w)) = []"
  by (cases call)
     (simp_all add: invoke_def WindowReload_effects WindowReloadApp_effects notify_def
        broadcast_isDispatch split: sum.splits)

lemma calls_isDispatch: "filter isDispatch (fst (forEach (invoke env d) cs w)) = []"
  by (rule forEach_filter_Nil) (rule invoke_isDispatch)

lemma dispatchMessage_effects:
  "ProcessMessage env m w = (r, w1) \<Longrightarrow>
   fst (snd (dispatchMessage env c m d w)) =
     Dispatch m # fst (forEach (invoke env d) (calls r) w1) @
       (case err r of None \<Rightarrow> [] | Some e \<Rightarrow> [LogError e]) @
       (if result r = [] then [] else [Send c (result r)])"
  by (simp add: dispatchMessage_def Let_def split: prod.splits option.splits)

lemma dispatchMessage_isDispatch:
  "filter isDispatch (fst (snd (dispatchMessage env c m d w))) = [Dispatch m]"
proof -
  obtain r w1 where p: "ProcessMessage env m w = (r, w1)" by (cases "ProcessMessage env m w")
  show ?thesis
    by (simp add: dispatchMessage_effects [OF p] calls_isDispatch split: option.splits)
qed

lemma handleMessage_generic:
  "m \<noteq> ''drag'' \<Longrightarrow> \<not> (2 < length m \<and> take 2 m \<in> {''EE'', ''EB'', ''EX''}) \<Longrightarrow>
   dispatchMessage env c m d w = (fl, es, w1) \<Longrightarrow>
   handleMessage env c m d w = (fl, d, es, w1)"
  by (auto simp: handleMessage_def)

lemma handleMessage_EX:
  "2 < length m \<Longrightarrow> take 2 m = ''EX'' \<Longrightarrow>
   dispatchMessage env c m (cacheDelete c (drop 2 m) d) w = (fl, es, w1) \<Longrightarrow>
   handleMessage env c m d w = (fl, cacheDelete c (drop 2 m) d, es, w1)"
  by (auto simp: handleMessage_def)

lemma handleMessage_EE_parts:
  "2 < length m \<Longrightarrow> take 2 m = ''EE'' \<Longrightarrow>
   notifyExcludingSender env m c d w = (es, w1) \<Longrightarrow>
   dispatchMessage env c m d w1 = (fl, es', w2) \<Longrightarrow>
   handleMessage env c m d w = (fl, d, es @ es', w2)"
  by (auto simp: handleMessage_def)

lemma handleMessage_isDispatch:
  "filter isDispatch (effectsOf (handleMessage env c m d w)) =
     (if m = ''drag'' \<or> (2 < length m \<and> take 2 m = ''EB'') then [] else [Dispatch m])"
proof -
  consider (drag) "m = ''drag''"
    | (ee) "2 < length m" "take 2 m = ''EE''"
    | (eb) "2 < length m" "take 2 m = ''EB''"
    | (ex) "2 < length m" "take 2 m = ''EX''"
    | (gen) "m \<noteq> ''drag''" "\<not> (2 < length m \<and> take 2 m \<in> {''EE'', ''EB'', ''EX''})"
    by auto
  then show ?thesis
  proof cases
    case drag
    then show ?thesis by (simp add: handleMessage_def effectsOf_def)
  next
    case ee
    obtain es w1 where n: "notifyExcludingSender env m c d w = (es, w1)"
      by (cases "notifyExcludingSender env m c d w")
    from notifyExcludingSender_isDispatch [of env m c d w] n
    have 1: "filter isDispatch es = []" by simp
    obtain fl es' w2 where p: "dispatchMessage env c m d w1 = (fl, es', w2)"
      by (cases "dispatchMessage env c m d w1")
    from ee have "m \<noteq> ''drag''" by auto
    with ee 1 dispatchMessage_isDispatch [of env c m d w1] p show ?thesis
      by (simp add: handleMessage_EE_parts [OF ee n p] effectsOf_def)
  next
    case eb
    then show ?thesis by (auto simp: handleMessage_def effectsOf_def)
  next
    case ex
    obtain fl es w1 where
      p: "dispatchMessage env c m (cacheDelete c (drop 2 m) d) w = (fl, es, w1)"
      by (cases "dispatchMessage env c m (cacheDelete c (drop 2 m) d) w")
    from ex have "m \<noteq> ''drag''" by auto
    with ex dispatchMessage_isDispatch [of env c m "cacheDelete c (drop 2 m) d" w] p show ?thesis
      by (simp add: handleMessage_EX [OF ex p] effectsOf_def)
  next
    case gen
    obtain fl es w1 where p: "dispatchMessage env c m d w = (fl, es, w1)"
      by (cases "dispatchMessage env c m d w")
    from gen dispatchMessage_isDispatch [of env c m d w] p show ?thesis
      by (simp add: handleMessage_generic [OF gen p] effectsOf_def)
  qed
qed

text \<open>
  Claim C4, as amended. The message \<open>drag\<close> leaves no trace: no effect, the registry as
  it was, and the loop goes on. A message longer than two bytes that begins with \<open>EB\<close>
  only stores the subscription. Every other message is handed to the dispatcher exactly
  once and verbatim, the messages that begin with \<open>EE\<close> or \<open>EX\<close> included: a message
  that is neither \<open>drag\<close> nor begins with \<open>EE\<close>, \<open>EB\<close> or \<open>EX\<close> does nothing but that
  (\<open>reload\<close> and \<open>reloadapp\<close> have no case of their own); one that begins with \<open>EE\<close> is
  rebroadcast first; one that begins with \<open>EX\<close> has the subscription removed first.
\<close>

theorem dispatch_classification:
  "handleMessage env c ''drag'' d w = (Continue, d, [], w) \<and>
   (2 < length m \<and> take 2 m = ''EB'' \<longrightarrow>
      handleMessage env c m d w = (Continue, cacheStore c (drop 2 m) d, [], w)) \<and>
   filter isDispatch (effectsOf (handleMessage env c m d w)) =
     (if m = ''drag'' \<or> (2 < length m \<and> take 2 m = ''EB'') then [] else [Dispatch m]) \<and>
   (m \<noteq> ''drag'' \<and> \<not> (2 < length m \<and> take 2 m \<in> {''EE'', ''EB'', ''EX''}) \<and>
    dispatchMessage env c m d w = (fl, es, w1) \<longrightarrow>
      handleMessage env c m d w = (fl, d, es, w1)) \<and>
   (2 < length m \<and> take 2 m = ''EE'' \<and> notifyExcludingSender env m c d w = (es, w1) \<and>
    dispatchMessage env c m d w1 = (fl, es', w2) \<longrightarrow>
      handleMessage env c m d w = (fl, d, es @ es', w2)) \<and>
   (2 < length m \<and> take 2 m = ''EX'' \<and>
    dispatchMessage env c m (cacheDelete c (drop 2 m) d) w = (fl, es, w1) \<longrightarrow>
      handleMessage env c m d w = (fl, cacheDelete c (drop 2 m) d, es, w1))"
proof (intro conjI impI)
  show "handleMessage env c ''drag'' d w = (Continue, d, [], w)"
    by (simp add: handleMessage_def)
next
  assume "2 < length m \<and> take 2 m = ''EE'' \<and> notifyExcludingSender env m c d w = (es, w1) \<and>
    dispatchMessage env c m d w1 = (fl, es', w2)"
  then show "handleMessage env c m d w = (fl, d, es @ es', w2)"
    by (simp add: handleMessage_EE_parts)
next
  assume "2 < length m \<and> take 2 m = ''EX'' \<and>
    dispatchMessage env c m (cacheDelete c (drop 2 m) d) w = (fl, es, w1)"
  then show "handleMessage env c m d w = (fl, cacheDelete c (drop 2 m) d, es, w1)"
    by (simp add: handleMessage_EX)
next
  assume "2 < length m \<and> take 2 m = ''EB''"
  then show "handleMessage env c m d w = (Continue, cacheStore c (drop 2 m) d, [], w)"
    by (auto simp: handleMessage_def)
next
  show "filter isDispatch (effectsOf (handleMessage env c m d w)) =
     (if m = ''drag'' \<or> (2 < length m \<and> take 2 m = ''EB'') then [] else [Dispatch m])"
    by (rule handleMessage_isDispatch)
next
  assume "m \<noteq> ''drag'' \<and> \<not> (2 < length m \<and> take 2 m \<in> {''EE'', ''EB'', ''EX''}) \<and>
    dispatchMessage env c m d w = (fl, es, w1)"
  then show "handleMessage env c m d w = (fl, d, es, w1)"
    by (simp add: handleMessage_generic)
qed

text \<open>A subscription, an unsubscription and the message \<open>reload\<close>.\<close>

theorem dispatch_classification_witness:
  "2 < length ''EBfoo'' \<and> take 2 ''EBfoo'' = ''EB'' \<and>
   handleMessage quietEnv (Conn 1) ''EBfoo'' threeClients () =
     (Continue, cacheStore (Conn 1) (drop 2 ''EBfoo'') threeClients, [], ()) \<and>
   2 < length ''EXfoo'' \<and> take 2 ''EXfoo'' = ''EX'' \<and>
   dispatchMessage quietEnv (Conn 1) ''EXfoo''
       (cacheDelete (Conn 1) (drop 2 ''EXfoo'') threeClients) () =
     (Continue, [Dispatch ''EXfoo''], ()) \<and>
   handleMessage quietEnv (Conn 1) ''EXfoo'' threeClients () =
     (Continue, cacheDelete (Conn 1) (drop 2 ''EXfoo'') threeClients, [Dispatch ''EXfoo''], ()) \<and>
   2 < length ''EEbar'' \<and> take 2 ''EEbar'' = ''EE'' \<and>
   dispatchMessage quietEnv (Conn 1) ''EEbar'' threeClients () =
     (Continue, [Dispatch ''EEbar''], ()) \<and>
   handleMessage quietEnv (Conn 1) ''EEbar'' threeClients () =
     (Continue, threeClients,
      fst (notifyExcludingSender quietEnv ''EEbar'' (Conn 1) threeClients ()) @
        [Dispatch ''EEbar''], ()) \<and>
   ''reload'' \<noteq> ''drag'' \<and>
   \<not> (2 < length ''reload'' \<and> take 2 ''reload'' \<in> {''EE'', ''EB'', ''EX''}) \<and>
   dispatchMessage quietEnv (Conn 1) ''reload'' threeClients () =
     (Continue, [Dispatch ''reload''], ()) \<and>
   handleMessage quietEnv (Conn 1) ''reload'' threeClients () =
     (Continue, threeClients, [Dispatch ''reload''], ())"
proof -
  have eb: "2 < length ''EBfoo'' \<and> take 2 ''EBfoo'' = ''EB''" by simp
  have ex: "2 < length ''EXfoo'' \<and> take 2 ''EXfoo'' = ''EX'' \<and>
      dispatchMessage quietEnv (Conn 1) ''EXfoo''
          (cacheDelete (Conn 1) (drop 2 ''EXfoo'') threeClients) () =
        (Continue, [Dispatch ''EXfoo''], ())"
    by (simp add: quiet_dispatch)
  have ee: "2 < length ''EEbar'' \<and> take 2 ''EEbar'' = ''EE'' \<and>
      notifyExcludingSender quietEnv ''EEbar'' (Conn 1) threeClients () =
        (fst (notifyExcludingSender quietEnv ''EEbar'' (Conn 1) threeClients ()), ()) \<and>
      dispatchMessage quietEnv (Conn 1) ''EEbar'' threeClients () =
        (Continue, [Dispatch ''EEbar''], ())"
    by (simp add: quiet_dispatch prod_eq_iff)
  have gen: "''reload'' \<noteq> ''drag'' \<and>
      \<not> (2 < length ''reload'' \<and> take 2 ''reload'' \<in> {''EE'', ''EB'', ''EX''}) \<and>
      dispatchMessage quietEnv (Conn 1) ''reload'' threeClients () =
        (Continue, [Dispatch ''reload''], ())"
    by (simp add: quiet_dispatch)
  from dispatch_classification [of quietEnv "Conn 1" threeClients "()" "''EBfoo''"] eb
  have 1: "handleMessage quietEnv (Conn 1) ''EBfoo'' threeClients () =
      (Continue, cacheStore (Conn 1) (drop 2 ''EBfoo'') threeClients, [], ())" by blast
  from dispatch_classification [of quietEnv "Conn 1" threeClients "()" "''EXfoo''"
      Continue "[Dispatch ''EXfoo'']" "()"] ex
  have 2: "handleMessage quietEnv (Conn 1) ''EXfoo'' threeClients () =
      (Continue, cacheDelete (Conn 1) (drop 2 ''EXfoo'') threeClients, [Dispatch ''EXfoo''], ())"
    by blast
  from dispatch_classification [of quietEnv "Conn 1" threeClients "()" "''EEbar''"
      Continue "fst (notifyExcludingSender quietEnv ''EEbar'' (Conn 1) threeClients ())" "()"
      "[Dispatch ''EEbar'']" "()"] ee
  have 3: "handleMessage quietEnv (Conn 1) ''EEbar'' threeClients () =
      (Continue, threeClients,
       fst (notifyExcludingSender quietEnv ''EEbar'' (Conn 1) threeClients ()) @
         [Dispatch ''EEbar''], ())"
    by blast
  from dispatch_classification [of quietEnv "Conn 1" threeClients "()" "''reload''"
      Continue "[Dispatch ''reload'']" "()"] gen
  have 4: "handleMessage quietEnv (Conn 1) ''reload'' threeClients () =
      (Continue, threeClients, [Dispatch ''reload''], ())" by blast
  from eb ex ee gen 1 2 3 4 show ?thesis by blast
qed

text \<open>
  Claim C4 as it was stated fails: an unsubscribe message and an event message are both
  handed to the dispatcher as well.
\<close>

theorem event_messages_not_dispatched_counterexample:
  "2 < length ''EXfoo'' \<and> take 2 ''EXfoo'' = ''EX'' \<and>
   Dispatch ''EXfoo'' \<in> set (effectsOf (handleMessage quietEnv (Conn 1) ''EXfoo'' threeClients ())) \<and>
   2 < length ''EEbar'' \<and> take 2 ''EEbar'' = ''EE'' \<and>
   Dispatch ''EEbar'' \<in> set (effectsOf (handleMessage quietEnv (Conn 1) ''EEbar'' threeClients ()))"
  by (simp add: handleMessage_def quiet_dispatch effectsOf_def split: prod.splits)









lemma calls_hostCall_isSend:
  "filter isSend (Dispatch m # xs @ (case e of None \<Rightarrow> [] | Some x \<Rightarrow> [LogError x]) @ ys) =
     filter isSend xs @ filter isSend ys"
  by (cases e) simp_all

text \<open>
  Claim C6, as amended. For a message that is neither \<open>drag\<close> nor begins with \<open>EE\<close>,
  \<open>EB\<close> or \<open>EX\<close>: the registry is unchanged; an error of the dispatcher is logged;
  the sends of the loop body are those of the calls the dispatcher itself made on its
  sender, followed by the result to the sending connection when the result is not
  empty, and by nothing when it is empty. So with a dispatcher that makes no calls the
  only send is the non-empty result, to the connection that sent the request. Whether
  the dispatcher returned an error does not decide whether the result is sent.
\<close>

theorem dispatch_reply:
  "m \<noteq> ''drag'' \<and> \<not> (2 < length m \<and> take 2 m \<in> {''EE'', ''EB'', ''EX''}) \<and>
   ProcessMessage env m w = (r, w1) \<longrightarrow>
     registryOf (handleMessage env c m d w) = d \<and>
     (err r = Some e \<longrightarrow> LogError e \<in> set (effectsOf (handleMessage env c m d w))) \<and>
     filter isSend (effectsOf (handleMessage env c m d w)) =
       filter isSend (fst (forEach (invoke env d) (calls r) w1)) @
         (if result r = [] then [] else [Send c (result r)]) \<and>
     (calls r = [] \<longrightarrow>
        filter isSend (effectsOf (handleMessage env c m d w)) =
          (if result r = [] then [] else [Send c (result r)]))"
proof (intro impI)
  assume h: "m \<noteq> ''drag'' \<and> \<not> (2 < length m \<and> take 2 m \<in> {''EE'', ''EB'', ''EX''}) \<and>
   ProcessMessage env m w = (r, w1)"
  then have gen: "m \<noteq> ''drag''" "\<not> (2 < length m \<and> take 2 m \<in> {''EE'', ''EB'', ''EX''})"
    and p: "ProcessMessage env m w = (r, w1)" by simp_all
  obtain fl es w2 where q: "dispatchMessage env c m d w = (fl, es, w2)"
    by (cases "dispatchMessage env c m d w")
  have hm: "handleMessage env c m d w = (fl, d, es, w2)"
    by (rule handleMessage_generic [OF gen q])
  from dispatchMessage_effects [OF p, of c d] q
  have es: "es = Dispatch m # fst (forEach (invoke env d) (calls r) w1) @
       (case err r of None \<Rightarrow> [] | Some e \<Rightarrow> [LogError e]) @
       (if result r = [] then [] else [Send c (result r)])" by simp
  have sends: "filter isSend es =
       filter isSend (fst (forEach (invoke env d) (calls r) w1)) @
         (if result r = [] then [] else [Send c (result r)])"
    unfolding es calls_hostCall_isSend by simp
  show "registryOf (handleMessage env c m d w) = d \<and>
     (err r = Some e \<longrightarrow> LogError e \<in> set (effectsOf (handleMessage env c m d w))) \<and>
     filter isSend (effectsOf (handleMessage env c m d w)) =
       filter isSend (fst (forEach (invoke env d) (calls r) w1)) @
         (if result r = [] then [] else [Send c (result r)]) \<and>
     (calls r = [] \<longrightarrow>
        filter isSend (effectsOf (handleMessage env c m d w)) =
          (if result r = [] then [] else [Send c (result r)]))"
  proof (intro conjI impI)
    show "registryOf (handleMessage env c m d w) = d" by (simp add: hm registryOf_def)
    show "filter isSend (effectsOf (handleMessage env c m d w)) =
       filter isSend (fst (forEach (invoke env d) (calls r) w1)) @
         (if result r = [] then [] else [Send c (result r)])"
      using sends by (simp add: hm effectsOf_def)
  next
    assume "err r = Some e"
    then show "LogError e \<in> set (effectsOf (handleMessage env c m d w))"
      by (simp add: hm effectsOf_def es)
  next
    assume "calls r = []"
    with sends show "filter isSend (effectsOf (handleMessage env c m d w)) =
          (if result r = [] then [] else [Send c (result r)])"
      by (simp add: hm effectsOf_def)
  qed
qed

text \<open>A dispatcher that answers, one that answers nothing, and one that fails.\<close>

theorem dispatch_reply_witness:
  "''Lhello'' \<noteq> ''drag'' \<and>
   \<not> (2 < length ''Lhello'' \<and> take 2 ''Lhello'' \<in> {''EE'', ''EB'', ''EX''}) \<and>
   ProcessMessage answeringEnv ''Lhello'' () = (\<lparr>calls = [], result = ''cLhello'', err = None\<rparr>, ()) \<and>
   ProcessMessage quietEnv ''Lhello'' () = (\<lparr>calls = [], result = [], err = None\<rparr>, ()) \<and>
   ProcessMessage failingEnv ''Lhello'' () =
     (\<lparr>calls = [], result = ''partial'', err = Some ''boom''\<rparr>, ()) \<and>
   filter isSend (effectsOf (handleMessage answeringEnv (Conn 1) ''Lhello'' threeClients ())) =
     [Send (Conn 1) ''cLhello''] \<and>
   filter isSend (effectsOf (handleMessage quietEnv (Conn 1) ''Lhello'' threeClients ())) = [] \<and>
   LogError ''boom'' \<in> set (effectsOf (handleMessage failingEnv (Conn 1) ''Lhello'' threeClients ())) \<and>
   registryOf (handleMessage answeringEnv (Conn 1) ''Lhello'' threeClients ()) = threeClients"
proof -
  have a: "ProcessMessage answeringEnv ''Lhello'' () =
      (\<lparr>calls = [], result = ''cLhello'', err = None\<rparr>, ())"
    by (simp add: answeringEnv_def quietEnv_def)
  have q: "ProcessMessage quietEnv ''Lhello'' () = (\<lparr>calls = [], result = [], err = None\<rparr>, ())"
    by (simp add: quietEnv_def)
  have f: "ProcessMessage failingEnv ''Lhello'' () =
      (\<lparr>calls = [], result = ''partial'', err = Some ''boom''\<rparr>, ())"
    by (simp add: failingEnv_def quietEnv_def)
  from dispatch_reply [of "''Lhello''" answeringEnv "()" _ "()" "Conn 1" threeClients] a
    dispatch_reply [of "''Lhello''" quietEnv "()" _ "()" "Conn 1" threeClients] q
    dispatch_reply [of "''Lhello''" failingEnv "()" _ "()" "Conn 1" threeClients "''boom''"] f
  show ?thesis by simp
qed

text \<open>
  Claim C6 as it was stated fails: a dispatcher that returns an error together with a
  result has the error logged and the result sent.
\<close>

theorem error_with_result_counterexample:
  "''Lhello'' \<noteq> ''drag'' \<and>
   \<not> (2 < length ''Lhello'' \<and> take 2 ''Lhello'' \<in> {''EE'', ''EB'', ''EX''}) \<and>
   err (fst (ProcessMessage failingEnv ''Lhello'' ())) = Some ''boom'' \<and>
   handleMessage failingEnv (Conn 1) ''Lhello'' threeClients () =
     (Continue, threeClients,
      [Dispatch ''Lhello'', LogError ''boom'', Send (Conn 1) ''partial''], ())"
  by (simp add: handleMessage_def dispatchMessage_def failingEnv_def quietEnv_def)

text \<open>
  Claim C7. For a message longer than two bytes that begins with \<open>EE\<close> and whose payload
  does not decode: \<open>notifyExcludingSender\<close> does the broadcast to the other connections
  as for any event message and then logs the decoding error; it makes no call of the
  host; and the loop body, which starts with these effects, leaves the registry with
  its subscription states as it was.
\<close>

theorem malformed_event_payload:
  "2 < length ee \<and> take 2 ee = ''EE'' \<and> Unmarshal env (drop 2 ee) = Inl e \<longrightarrow>
     fst (notifyExcludingSender env ee a d w) =
       fst (broadcastExcludingSender env (''n'' @ drop 2 ee) a d w) @ [LogError e] \<and>
     (Send c m \<in> set (fst (notifyExcludingSender env ee a d w)) \<longleftrightarrow>
        registered d c \<and> c \<noteq> a \<and> m = ''n'' @ drop 2 ee) \<and>
     filter hostCall (fst (notifyExcludingSender env ee a d w)) = [] \<and>
     (\<exists>rest. effectsOf (handleMessage env a ee d w) =
                fst (notifyExcludingSender env ee a d w) @ rest) \<and>
     registryOf (handleMessage env a ee d w) = d"
proof (intro impI conjI)
  assume h: "2 < length ee \<and> take 2 ee = ''EE'' \<and> Unmarshal env (drop 2 ee) = Inl e"
  then show "fst (notifyExcludingSender env ee a d w) =
       fst (broadcastExcludingSender env (''n'' @ drop 2 ee) a d w) @ [LogError e]"
    by (simp add: notifyExcludingSender_effects)
  show "Send c m \<in> set (fst (notifyExcludingSender env ee a d w)) \<longleftrightarrow>
        registered d c \<and> c \<noteq> a \<and> m = ''n'' @ drop 2 ee"
    by (rule notifyExcludingSender_Send)
  from h show "filter hostCall (fst (notifyExcludingSender env ee a d w)) = []"
    by (simp add: notifyExcludingSender_effects broadcastExcludingSender_hostCall)
  from h show "\<exists>rest. effectsOf (handleMessage env a ee d w) =
                fst (notifyExcludingSender env ee a d w) @ rest"
    by (simp add: handleMessage_EE effectsOf_def split: prod.splits)
  from h show "registryOf (handleMessage env a ee d w) = d"
    by (simp add: handleMessage_EE registryOf_def split: prod.splits)
qed

text \<open>Connection 1 of three sends an event whose payload is not JSON.\<close>

theorem malformed_event_payload_witness:
  "2 < length ''EEnot json'' \<and> take 2 ''EEnot json'' = ''EE'' \<and>
   Unmarshal quietEnv (drop 2 ''EEnot json'') = Inl ''invalid character'' \<and>
   Send (Conn 2) ''nnot json'' \<in>
     set (fst (notifyExcludingSender quietEnv ''EEnot json'' (Conn 1) threeClients ())) \<and>
   Send (Conn 1) ''nnot json'' \<notin>
     set (fst (notifyExcludingSender quietEnv ''EEnot json'' (Conn 1) threeClients ())) \<and>
   filter hostCall (fst (notifyExcludingSender quietEnv ''EEnot json'' (Conn 1) threeClients ())) = [] \<and>
   registryOf (handleMessage quietEnv (Conn 1) ''EEnot json'' threeClients ()) = threeClients"
proof -
  have h: "2 < length ''EEnot json'' \<and> take 2 ''EEnot json'' = ''EE'' \<and>
      Unmarshal quietEnv (drop 2 ''EEnot json'') = Inl ''invalid character''"
    by (simp add: quietEnv_def)
  from malformed_event_payload [of "''EEnot json''" quietEnv "''invalid character''" "Conn 1"
      threeClients "()" "Conn 2" "''nnot json''"] h
  have two: "Send (Conn 2) ''nnot json'' \<in>
      set (fst (notifyExcludingSender quietEnv ''EEnot json'' (Conn 1) threeClients ())) \<longleftrightarrow>
      registered threeClients (Conn 2) \<and> Conn 2 \<noteq> Conn 1 \<and> ''nnot json'' = ''n'' @ drop 2 ''EEnot json''"
    and host: "filter hostCall
      (fst (notifyExcludingSender quietEnv ''EEnot json'' (Conn 1) threeClients ())) = []"
    and reg: "registryOf (handleMessage quietEnv (Conn 1) ''EEnot json'' threeClients ()) =
      threeClients"
    by blast+
  from malformed_event_payload [of "''EEnot json''" quietEnv "''invalid character''" "Conn 1"
      threeClients "()" "Conn 1" "''nnot json''"] h
  have one: "Send (Conn 1) ''nnot json'' \<in>
      set (fst (notifyExcludingSender quietEnv ''EEnot json'' (Conn 1) threeClients ())) \<longleftrightarrow>
      registered threeClients (Conn 1) \<and> Conn 1 \<noteq> Conn 1 \<and> ''nnot json'' = ''n'' @ drop 2 ''EEnot json''"
    by blast
  from two have two': "Send (Conn 2) ''nnot json'' \<in>
      set (fst (notifyExcludingSender quietEnv ''EEnot json'' (Conn 1) threeClients ()))"
    by (simp add: threeClients_registered)
  from one have one': "Send (Conn 1) ''nnot json'' \<notin>
      set (fst (notifyExcludingSender quietEnv ''EEnot json'' (Conn 1) threeClients ()))"
    by simp
  from h two' one' host reg show ?thesis by blast
qed

section \<open>Properties of the browser client\<close>

lemma sendQueued_open:
  "wailsInvokeInternal s \<Longrightarrow> websocket s = Some OPEN \<Longrightarrow>
   sendQueued ms s = (None, s\<lparr>transport := transport s @ ms\<rparr>)"
  by (induction ms arbitrary: s) (simp_all add: WailsInvoke_def websocketSend_def)

lemma queue_drained_on_open:
  "onopen s = (None, s\<lparr>wailsInvokeInternal := True, websocket := Some OPEN, overlay := False,
      transport := transport s @ messageQueue s, messageQueue := [], oncloseBound := True,
      rebinds := Suc (rebinds s)\<rparr>)"
  by (simp add: onopen_def handleConnect_def setupIPCBridge_def sendQueued_open)

lemma submitted_before_open:
  "\<not> wailsInvokeInternal s \<Longrightarrow>
   fold (\<lambda>m s. snd (WailsInvoke m s)) ms s = s\<lparr>messageQueue := messageQueue s @ ms\<rparr>"
  by (induction ms arbitrary: s) (simp_all add: WailsInvoke_def)

lemma loaded_state:
  "loaded = \<lparr>wailsInvokeInternal = False, messageQueue = [], websocket = Some CONNECTING,
     oncloseBound = False, transport = [], overlay = False, rebinds = 0\<rparr>"
  by (simp add: loaded_def connect_def connect_inner_def)

text \<open>
  Claim C8, as amended. As long as the bridge has not been set up, a submitted message
  is appended to the queue and nothing is sent. An open throws nothing, hands the queue
  to the socket in order, each message once, empties it and sets the bridge up. With
  the bridge set up and the socket open, a submitted message goes to the socket at once
  and the queue is not touched. So the messages \<open>ms\<close> submitted between the load of the
  script and the first open wait in the queue in their order and are on the wire in
  that order after the open.
\<close>

theorem reconnector_queue:
  "(\<not> wailsInvokeInternal s \<longrightarrow>
      WailsInvoke m s = (None, s\<lparr>messageQueue := messageQueue s @ [m]\<rparr>)) \<and>
   fst (onopen s) = None \<and>
   transport (snd (onopen s)) = transport s @ messageQueue s \<and>
   messageQueue (snd (onopen s)) = [] \<and>
   wailsInvokeInternal (snd (onopen s)) \<and>
   (wailsInvokeInternal s \<and> websocket s = Some OPEN \<longrightarrow>
      WailsInvoke m s = (None, s\<lparr>transport := transport s @ [m]\<rparr>)) \<and>
   messageQueue (fold (\<lambda>m s. snd (WailsInvoke m s)) ms loaded) = ms \<and>
   transport (fold (\<lambda>m s. snd (WailsInvoke m s)) ms loaded) = [] \<and>
   transport (snd (onopen (fold (\<lambda>m s. snd (WailsInvoke m s)) ms loaded))) = ms \<and>
   messageQueue (snd (onopen (fold (\<lambda>m s. snd (WailsInvoke m s)) ms loaded))) = []"
proof -
  have l: "\<not> wailsInvokeInternal loaded" by (simp add: loaded_state)
  show ?thesis
    by (simp add: queue_drained_on_open submitted_before_open [OF l])
       (simp add: WailsInvoke_def websocketSend_def loaded_state)
qed

text \<open>Three messages before the first open, and one after it.\<close>

theorem reconnector_queue_witness:
  "\<not> wailsInvokeInternal loaded \<and>
   WailsInvoke ''a'' loaded = (None, loaded\<lparr>messageQueue := messageQueue loaded @ [''a'']\<rparr>) \<and>
   transport (snd (onopen (fold (\<lambda>m s. snd (WailsInvoke m s)) [''a'', ''b'', ''c''] loaded))) =
     [''a'', ''b'', ''c''] \<and>
   messageQueue (snd (onopen (fold (\<lambda>m s. snd (WailsInvoke m s)) [''a'', ''b'', ''c''] loaded))) = [] \<and>
   wailsInvokeInternal (snd (onopen loaded)) \<and> websocket (snd (onopen loaded)) = Some OPEN \<and>
   WailsInvoke ''d'' (snd (onopen loaded)) =
     (None, (snd (onopen loaded))\<lparr>transport := transport (snd (onopen loaded)) @ [''d'']\<rparr>)"
proof -
  have l: "\<not> wailsInvokeInternal loaded"
    by (simp add: loaded_state)
  have o: "wailsInvokeInternal (snd (onopen loaded)) \<and> websocket (snd (onopen loaded)) = Some OPEN"
    by (simp add: queue_drained_on_open)
  from reconnector_queue [of loaded "''a''" "[''a'', ''b'', ''c'']"] l
  have a: "WailsInvoke ''a'' loaded =
      (None, loaded\<lparr>messageQueue := messageQueue loaded @ [''a'']\<rparr>)"
    and b: "transport (snd (onopen (fold (\<lambda>m s. snd (WailsInvoke m s)) [''a'', ''b'', ''c''] loaded))) =
      [''a'', ''b'', ''c'']"
    and c: "messageQueue (snd (onopen (fold (\<lambda>m s. snd (WailsInvoke m s)) [''a'', ''b'', ''c''] loaded))) = []"
    by blast+
  from reconnector_queue [of "snd (onopen loaded)" "''d''"] o
  have d: "WailsInvoke ''d'' (snd (onopen loaded)) =
     (None, (snd (onopen loaded))\<lparr>transport := transport (snd (onopen loaded)) @ [''d'']\<rparr>)"
    by blast
  from l o a b c d show ?thesis by blast
qed

text \<open>
  Claim C8 as it was stated fails at a reconnect. The script is loaded, the socket opens
  and closes again, and a message is submitted before the next socket is open. Nothing
  resets \<open>wailsInvokeInternal\<close>, so the message is not queued: \<open>send\<close> throws on the
  socket that is still connecting, and after \<open>onerror\<close> the access to \<open>null\<close> throws.
  The message is neither in the queue nor on the wire.
\<close>

theorem invoke_after_reconnect_counterexample:
  "websocket (onclose (snd (onopen loaded))) = Some CONNECTING \<and>
   WailsInvoke ''m'' (onclose (snd (onopen loaded))) =
     (Some InvalidStateError, onclose (snd (onopen loaded))) \<and>
   messageQueue (onclose (snd (onopen loaded))) = [] \<and>
   transport (onclose (snd (onopen loaded))) = [] \<and>
   websocket (onerror (onclose (snd (onopen loaded)))) = None \<and>
   WailsInvoke ''m'' (onerror (onclose (snd (onopen loaded)))) =
     (Some TypeError, onerror (onclose (snd (onopen loaded)))) \<and>
   messageQueue (onerror (onclose (snd (onopen loaded)))) = [] \<and>
   transport (onerror (onclose (snd (onopen loaded)))) = []"
  by (simp add: queue_drained_on_open onclose_def onerror_def handleDisconnect_def connect_def
      connect_inner_def loaded_def WailsInvoke_def websocketSend_def)

section \<open>Properties of the routes\<close>

text \<open>
  Claim C10, as amended. With no frontend dev server URL the catch-all route holds the
  nil \<open>wsHandler\<close>: its websocket branch panics and its other branch serves the asset.
  A websocket upgrade request to any path other than \<open>/wails/reload\<close>, \<open>/wails/ipc\<close>
  and \<open>/wails/assetdir\<close> (the route registered in just this configuration) reaches that
  branch.
\<close>

theorem nil_websocket_handler:
  "frontenddevserverurl ctx = [] \<longrightarrow>
     (\<exists>routes. Run urlParse ctx = Some routes \<and> map_of routes ''/*'' = Some (CatchAll None)) \<and>
     serveHandler (CatchAll None) True = NilHandlerPanic \<and>
     serveHandler (CatchAll None) False = AssetServed \<and>
     (path \<notin> {''/wails/reload'', ''/wails/ipc'', ''/wails/assetdir''} \<longrightarrow>
        serveGET urlParse ctx path True = Some NilHandlerPanic \<and>
        serveGET urlParse ctx path False = Some AssetServed)"
  by (auto simp: Run_def serveGET_def findRoute_def serveHandler_def)

text \<open>The websocket a Vite page opens, with no dev server configured.\<close>

theorem nil_websocket_handler_witness:
  "frontenddevserverurl \<lparr>frontenddevserverurl = [], assetdir = ''/app/dist''\<rparr> = [] \<and>
   ''/@vite/client'' \<notin> {''/wails/reload'', ''/wails/ipc'', ''/wails/assetdir''} \<and>
   serveGET Some \<lparr>frontenddevserverurl = [], assetdir = ''/app/dist''\<rparr> ''/@vite/client'' True =
     Some NilHandlerPanic \<and>
   serveGET Some \<lparr>frontenddevserverurl = [], assetdir = ''/app/dist''\<rparr> ''/@vite/client'' False =
     Some AssetServed"
  using nil_websocket_handler [of "\<lparr>frontenddevserverurl = [], assetdir = ''/app/dist''\<rparr>" Some
      "''/@vite/client''"]
  by simp

text \<open>
  Claim C10 as it was stated fails for the path \<open>/wails/assetdir\<close>: it is neither of the
  two paths the claim excepts, and a websocket upgrade request to it is answered by its
  own route.
\<close>

theorem assetdir_route_counterexample:
  "frontenddevserverurl \<lparr>frontenddevserverurl = [], assetdir = ''/app/dist''\<rparr> = [] \<and>
   ''/wails/assetdir'' \<noteq> ''/wails/ipc'' \<and> ''/wails/assetdir'' \<noteq> ''/wails/reload'' \<and>
   serveGET Some \<lparr>frontenddevserverurl = [], assetdir = ''/app/dist''\<rparr> ''/wails/assetdir'' True =
     Some (Text ''/app/dist'')"
  by (simp add: Run_def serveGET_def findRoute_def serveHandler_def)

end
